theory Spec2Isabelle
  imports Complex_Main "HOL-Library.Char_ord" "HOL-Library.List_Lexorder"
    "HOL-Library.Product_Lexorder"
begin

section \<open>Python strings and integers\<close>

text \<open>
  A Python \<open>str\<close> is modelled as a \<open>string\<close>, one \<open>char\<close> per code point, so the model
  covers the code points 0 to 255 (Latin-1). With \<open>HOL-Library.Char_ord\<close> and
  \<open>HOL-Library.List_Lexorder\<close> the order on \<open>string\<close> is the lexicographic order by code
  point, which is how Python compares two \<open>str\<close> values.

  \<open>is_space\<close> is the set of characters that \<open>str.split()\<close>, \<open>str.strip()\<close> and \<open>int()\<close>
  treat as whitespace, restricted to that range: TAB to CR, the separators FS to US, the
  space, NEL and the no-break space.
\<close>

definition is_space :: "char \<Rightarrow> bool" where
  "is_space c =
     (let n = (of_char c :: nat)
      in (9 \<le> n \<and> n \<le> 13) \<or> (28 \<le> n \<and> n \<le> 32) \<or> n = 133 \<or> n = 160)"

definition is_digit :: "char \<Rightarrow> bool" where
  "is_digit c = (let n = (of_char c :: nat) in 48 \<le> n \<and> n \<le> 57)"

definition digit_val :: "char \<Rightarrow> int" where
  "digit_val c = int (of_char c) - 48"

text \<open>\<open>s.strip()\<close>: whitespace removed at both ends.\<close>

definition strip :: "string \<Rightarrow> string" where
  "strip s = rev (dropWhile is_space (rev (dropWhile is_space s)))"

text \<open>
  \<open>s.split()\<close>: the maximal runs of non-whitespace characters, in order. \<open>cur\<close> holds the
  characters of the token being read, last one first.
\<close>

fun split_ws_from :: "string \<Rightarrow> string \<Rightarrow> string list" where
  "split_ws_from cur [] = (if cur = [] then [] else [rev cur])"
| "split_ws_from cur (c # cs) =
     (if is_space c
      then (if cur = [] then split_ws_from [] cs else rev cur # split_ws_from [] cs)
      else split_ws_from (c # cur) cs)"

definition split_ws :: "string \<Rightarrow> string list" where
  "split_ws s = split_ws_from [] s"

text \<open>\<open>s.replace(",", " ")\<close>.\<close>

definition replace_comma :: "string \<Rightarrow> string" where
  "replace_comma s = map (\<lambda>c. if c = CHR '','' then CHR '' '' else c) s"

text \<open>\<open>p.startswith(pre)\<close>.\<close>

definition startswith :: "string \<Rightarrow> string \<Rightarrow> bool" where
  "startswith p pre = (take (length pre) p = pre)"

text \<open>
  \<open>int(s)\<close> for a \<open>str\<close> in base 10: surrounding whitespace is dropped, then an optional
  sign, then at least one digit, with single underscores allowed between digits. Anything
  else raises \<open>ValueError\<close>, which is \<open>None\<close> here. \<open>parse_digits\<close> reads what follows the
  first digit. The whitespace that \<open>int\<close> drops is narrower than that of \<open>strip\<close>: the
  separators FS to US are not part of it. (The interpreter's configurable limit on the
  number of digits, 4300 by default in recent versions, is not part of the model.)
\<close>

definition is_int_space :: "char \<Rightarrow> bool" where
  "is_int_space c =
     (let n = (of_char c :: nat) in (9 \<le> n \<and> n \<le> 13) \<or> n = 32 \<or> n = 133 \<or> n = 160)"

definition int_strip :: "string \<Rightarrow> string" where
  "int_strip s = rev (dropWhile is_int_space (rev (dropWhile is_int_space s)))"

fun parse_digits :: "string \<Rightarrow> int \<Rightarrow> int option" where
  "parse_digits [] acc = Some acc"
| "parse_digits [c] acc = (if is_digit c then Some (10 * acc + digit_val c) else None)"
| "parse_digits (c # d # ds) acc =
     (if is_digit c then parse_digits (d # ds) (10 * acc + digit_val c)
      else if c = CHR ''_'' \<and> is_digit d then parse_digits ds (10 * acc + digit_val d)
      else None)"

definition py_int :: "string \<Rightarrow> int option" where
  "py_int s =
     (case int_strip s of
        [] \<Rightarrow> None
      | c # cs \<Rightarrow>
          (let neg = (c = CHR ''-'');
               body = (if c = CHR ''-'' \<or> c = CHR ''+'' then cs else c # cs)
           in case body of
                [] \<Rightarrow> None
              | d # ds \<Rightarrow>
                  (if is_digit d
                   then map_option (\<lambda>v. if neg then - v else v) (parse_digits ds (digit_val d))
                   else None)))"

text \<open>\<open>str(n)\<close> for an \<open>int\<close>, as the f-strings of the source format it.\<close>

fun str_nat :: "nat \<Rightarrow> string" where
  "str_nat n = (if n < 10 then [char_of (48 + n)] else str_nat (n div 10) @ [char_of (48 + n mod 10)])"

definition str_int :: "int \<Rightarrow> string" where
  "str_int i = (if i < 0 then CHR ''-'' # str_nat (nat (- i)) else str_nat (nat i))"

section \<open>Constants\<close>

definition DEFAULT_INTERVAL_MIN :: int where "DEFAULT_INTERVAL_MIN = 10"
definition MIN_INTERVAL :: int where "MIN_INTERVAL = 3"
definition MAX_INTERVAL :: int where "MAX_INTERVAL = 30"
definition STEP_UP :: int where "STEP_UP = 2"
definition STEP_DOWN :: int where "STEP_DOWN = 3"
definition STREAK_FOR_STEPUP :: int where "STREAK_FOR_STEPUP = 2"

definition clamp :: "int \<Rightarrow> int \<Rightarrow> int \<Rightarrow> int" where
  "clamp v lo hi = max lo (min hi v)"

section \<open>The side channel of the note: \<open>safe_int_from_note\<close>\<close>

text \<open>
  \<open>p.split("=", 1)[1]\<close>: what follows the first \<open>=\<close> of \<open>p\<close>; \<open>None\<close> is the
  \<open>IndexError\<close> of a \<open>p\<close> without \<open>=\<close>.
\<close>

definition after_eq :: "string \<Rightarrow> string option" where
  "after_eq p = (case dropWhile (\<lambda>c. c \<noteq> CHR ''='') p of [] \<Rightarrow> None | _ # v \<Rightarrow> Some v)"

text \<open>
  The \<open>for p in parts\<close> loop: the first part that starts with \<open>key=\<close> decides, and both
  exceptions of the \<open>try\<close> body give \<open>None\<close>.
\<close>

fun scan_parts :: "string \<Rightarrow> string list \<Rightarrow> int option" where
  "scan_parts key [] = None"
| "scan_parts key (p # ps) =
     (if startswith p (key @ ''='')
      then (case after_eq p of None \<Rightarrow> None | Some v \<Rightarrow> py_int v)
      else scan_parts key ps)"

definition safe_int_from_note :: "string \<Rightarrow> string \<Rightarrow> int option" where
  "safe_int_from_note note key =
     (if note = [] then None else scan_parts key (split_ws (replace_comma note)))"

section \<open>The event log as the statistics engine reads it\<close>

datatype error = ValueError | KeyError

text \<open>
  A row of \<open>csv.DictReader\<close>: a dictionary from column names to values, where a value is
  \<open>None\<close> for a column the line is too short to fill. \<open>row_get row k dflt\<close> is
  \<open>row.get(k, dflt)\<close>; its result \<open>None\<close> is Python's \<open>None\<close>.
\<close>

type_synonym csv_row = "string \<rightharpoonup> string option"

definition row_get :: "csv_row \<Rightarrow> string \<Rightarrow> string \<Rightarrow> string option" where
  "row_get row k dflt = (case row k of None \<Rightarrow> Some dflt | Some v \<Rightarrow> v)"

text \<open>\<open>v or ""\<close> for an optional string.\<close>

definition or_empty :: "string option \<Rightarrow> string" where
  "or_empty v = (case v of None \<Rightarrow> [] | Some s \<Rightarrow> s)"

text \<open>The dictionary that \<open>load\<close> builds for one record; \<open>dt\<close> is the parsed timestamp and
  \<open>note_str\<close> the entry \<open>"note"\<close>.\<close>

record 'dt event =
  dt :: 'dt
  day :: string
  event :: string
  task :: string
  secs :: int
  note_str :: string
  timestamp :: string

text \<open>
  \<open>int(row.get("session_seconds", "0") or 0)\<close>: an absent or empty value is 0, any other
  string goes through \<open>int\<close>, whose \<open>ValueError\<close> is \<open>None\<close> here.
\<close>

definition row_secs :: "csv_row \<Rightarrow> int option" where
  "row_secs row =
     (case row_get row ''session_seconds'' ''0'' of
        None \<Rightarrow> Some 0
      | Some s \<Rightarrow> if s = [] then Some 0 else py_int s)"

text \<open>
  The loop of \<open>StatsEngine.load\<close> over the rows of the file. \<open>datetime.strptime\<close> and
  \<open>strftime\<close> belong to the standard library and are the parameters \<open>parse_ts\<close>
  (\<open>None\<close> when it raises) and \<open>day_key\<close>. Only the timestamp is parsed inside
  \<open>try\<close>; the \<open>int\<close> of the seconds is not, so its \<open>ValueError\<close> leaves the loop and
  the function.
\<close>

fun load_rows ::
  "(string \<Rightarrow> 'dt option) \<Rightarrow> ('dt \<Rightarrow> string) \<Rightarrow> csv_row list \<Rightarrow> 'dt event list
     \<Rightarrow> error + 'dt event list" where
  "load_rows parse_ts day_key [] events = Inr events"
| "load_rows parse_ts day_key (row # rows) events =
     (case row_get row ''timestamp'' [] of
        None \<Rightarrow> load_rows parse_ts day_key rows events
      | Some ts \<Rightarrow>
          (case parse_ts ts of
             None \<Rightarrow> load_rows parse_ts day_key rows events
           | Some d \<Rightarrow>
               (case row_secs row of
                  None \<Rightarrow> Inl ValueError
                | Some n \<Rightarrow>
                    load_rows parse_ts day_key rows
                      (events @
                       [\<lparr>dt = d, day = day_key d,
                         event = strip (or_empty (row_get row ''event'' [])),
                         task = strip (or_empty (row_get row ''task'' [])),
                         secs = n,
                         note_str = or_empty (row_get row ''note'' []),
                         timestamp = ts\<rparr>]))))"

text \<open>
  \<open>StatsEngine.load\<close>: the file is \<open>None\<close> when it does not exist, else its rows after
  the header. The result is the new \<open>self.events\<close>, sorted by \<open>dt\<close> (a stable sort), or
  the exception.
\<close>

definition load ::
  "(string \<Rightarrow> ('dt::linorder) option) \<Rightarrow> ('dt \<Rightarrow> string) \<Rightarrow> csv_row list option
     \<Rightarrow> error + 'dt event list" where
  "load parse_ts day_key file =
     (case file of
        None \<Rightarrow> Inr []
      | Some rows \<Rightarrow>
          (case load_rows parse_ts day_key rows [] of
             Inl e \<Rightarrow> Inl e
           | Inr events \<Rightarrow> Inr (sort_key dt events)))"

definition events_for_day :: "'dt event list \<Rightarrow> string \<Rightarrow> 'dt event list" where
  "events_for_day events d = filter (\<lambda>e. day e = d) events"

definition events_in_range :: "'dt event list \<Rightarrow> string \<Rightarrow> string \<Rightarrow> 'dt event list" where
  "events_in_range events start_day end_day =
     filter (\<lambda>e. start_day \<le> day e \<and> day e \<le> end_day) events"

section \<open>\<open>StatsEngine.summary_for_day\<close>\<close>

text \<open>
  The dictionary the function returns. Python's true division of two integers is kept as
  the exact quotient, a \<open>rat\<close>; \<open>None\<close> is Python's \<open>None\<close>.
\<close>

record summary =
  sum_day :: string
  on_min :: int
  off_min :: int
  total_min :: int
  ratio_on :: "rat option"
  checkins_on :: int
  checkins_off :: int
  procrastinations :: int
  starts :: int
  stops :: int
  cancels :: int
  completes :: int
  breaks :: int

text \<open>\<open>if interval: x += interval\<close>: \<open>None\<close> and 0 add nothing.\<close>

definition add_interval :: "int option \<Rightarrow> int \<Rightarrow> int" where
  "add_interval interval x = (case interval of None \<Rightarrow> x | Some v \<Rightarrow> if v \<noteq> 0 then x + v else x)"

text \<open>One pass of the \<open>for e in evs\<close> loop over the counters.\<close>

definition summary_step :: "'dt event \<Rightarrow> summary \<Rightarrow> summary" where
  "summary_step e s =
     (let evt = event e; interval = safe_int_from_note (note_str e) ''interval_min''
      in if evt = ''checkin_on_task''
           then s\<lparr>checkins_on := checkins_on s + 1, on_min := add_interval interval (on_min s)\<rparr>
         else if evt = ''checkin_off_task''
           then s\<lparr>checkins_off := checkins_off s + 1, off_min := add_interval interval (off_min s)\<rparr>
         else if evt = ''procrastination''
           then s\<lparr>procrastinations := procrastinations s + 1,
                  off_min := add_interval interval (off_min s)\<rparr>
         else if evt = ''start'' then s\<lparr>starts := starts s + 1\<rparr>
         else if evt = ''stop'' then s\<lparr>stops := stops s + 1\<rparr>
         else if evt = ''cancel'' then s\<lparr>cancels := cancels s + 1\<rparr>
         else if evt = ''session_complete''
           then s\<lparr>completes := completes s + 1, stops := stops s + 1\<rparr>
         else if evt = ''break'' then s\<lparr>breaks := breaks s + 1\<rparr>
         else s)"

definition summary_init :: "string \<Rightarrow> summary" where
  "summary_init d =
     \<lparr>sum_day = d, on_min = 0, off_min = 0, total_min = 0, ratio_on = None,
      checkins_on = 0, checkins_off = 0, procrastinations = 0, starts = 0, stops = 0,
      cancels = 0, completes = 0, breaks = 0\<rparr>"

definition summary_for_day :: "'dt event list \<Rightarrow> string \<Rightarrow> summary" where
  "summary_for_day events d =
     (let s = fold summary_step (events_for_day events d) (summary_init d);
          total = on_min s + off_min s;
          ratio = (if total > 0 then Some (of_int (on_min s) / of_int total) else None)
      in s\<lparr>total_min := total, ratio_on := ratio\<rparr>)"

section \<open>\<open>StatsEngine.sessions_by_task_in_range\<close>\<close>

text \<open>The per-task dictionary \<open>{"sessions": 0, "total_secs": 0, "cancels": 0}\<close>.\<close>

record rec =
  rec_sessions :: int
  rec_total_secs :: int
  rec_cancels :: int

text \<open>\<open>(e.get("task") or "").strip() or "(no task)"\<close>.\<close>

definition task_label :: "'dt event \<Rightarrow> string" where
  "task_label e = (let t = strip (task e) in if t = [] then ''(no task)'' else t)"

text \<open>
  The dictionary \<open>by\<close> is a list of pairs in insertion order, the order Python iterates
  a \<open>dict\<close> in. \<open>update_rec t f\<close> is \<open>rec = by.setdefault(t, {...})\<close> followed by the
  update \<open>f\<close> of \<open>rec\<close> in place.
\<close>

fun update_rec :: "string \<Rightarrow> (rec \<Rightarrow> rec) \<Rightarrow> (string \<times> rec) list \<Rightarrow> (string \<times> rec) list" where
  "update_rec t f [] = [(t, f \<lparr>rec_sessions = 0, rec_total_secs = 0, rec_cancels = 0\<rparr>)]"
| "update_rec t f ((k, r) # tbl) =
     (if k = t then (k, f r) # tbl else (k, r) # update_rec t f tbl)"

text \<open>
  One pass of the loop. The field \<open>secs\<close> of a loaded event is an \<open>int\<close>, so the
  \<open>int(...)\<close> inside \<open>try\<close> cannot raise.
\<close>

definition by_task_step :: "'dt event \<Rightarrow> (string \<times> rec) list \<Rightarrow> (string \<times> rec) list" where
  "by_task_step e tbl =
     (let evt = event e
      in if evt \<noteq> ''stop'' \<and> evt \<noteq> ''cancel'' then tbl
         else if evt = ''stop''
           then update_rec (task_label e)
                  (\<lambda>r. r\<lparr>rec_sessions := rec_sessions r + 1,
                          rec_total_secs := rec_total_secs r + secs e\<rparr>) tbl
         else update_rec (task_label e) (\<lambda>r. r\<lparr>rec_cancels := rec_cancels r + 1\<rparr>) tbl)"

text \<open>A row \<open>(task, sessions, total_secs, avg, cancels)\<close> of the result.\<close>

type_synonym task_row = "string \<times> int \<times> int \<times> rat option \<times> int"

definition row_of :: "string \<times> rec \<Rightarrow> task_row" where
  "row_of tr =
     (case tr of (t, r) \<Rightarrow>
        (t, rec_sessions r, rec_total_secs r,
         (if rec_sessions r > 0 then Some (of_int (rec_total_secs r) / of_int (rec_sessions r))
          else None),
         rec_cancels r))"

text \<open>
  \<open>rows.sort(key=..., reverse=True)\<close>: Python reverses the list, sorts it stably and
  reverses it again, so rows with equal keys keep their order.
\<close>

definition sort_desc :: "('a \<Rightarrow> 'k::linorder) \<Rightarrow> 'a list \<Rightarrow> 'a list" where
  "sort_desc k xs = rev (sort_key k (rev xs))"

definition sessions_by_task_in_range ::
  "'dt event list \<Rightarrow> string \<Rightarrow> string \<Rightarrow> task_row list" where
  "sessions_by_task_in_range events start_day end_day =
     sort_desc (\<lambda>(t, n, total, avg, c). (total, n))
       (map row_of (fold by_task_step (events_in_range events start_day end_day) []))"

section \<open>\<open>StatsEngine.session_stats_in_range\<close>\<close>

definition is_boundary :: "'dt event \<Rightarrow> bool" where
  "is_boundary e = (event e = ''stop'' \<or> event e = ''cancel'' \<or> event e = ''start'')"

text \<open>
  The first inner \<open>while\<close>: from index \<open>j\<close>, stop at a boundary or at the end, or
  \<open>break\<close> at the first procrastination with its \<open>secs\<close>. The result is
  \<open>(first, j)\<close> at the exit.
\<close>

function scan_first :: "'dt event list \<Rightarrow> nat \<Rightarrow> int option \<times> nat" where
  "scan_first evs j =
     (if j < length evs \<and> \<not> is_boundary (evs ! j)
      then (if event (evs ! j) = ''procrastination'' then (Some (secs (evs ! j)), j)
            else scan_first evs (j + 1))
      else (None, j))"
  by pat_completeness auto
termination
  by (relation "measure (\<lambda>(evs, j). length evs - j)") auto

declare scan_first.simps [simp del]

text \<open>The second inner \<open>while\<close>: advance \<open>j\<close> to the boundary or to the end.\<close>

function skip_to_boundary :: "'dt event list \<Rightarrow> nat \<Rightarrow> nat" where
  "skip_to_boundary evs j =
     (if j < length evs \<and> \<not> is_boundary (evs ! j) then skip_to_boundary evs (j + 1) else j)"
  by pat_completeness auto
termination
  by (relation "measure (\<lambda>(evs, j). length evs - j)") auto

declare skip_to_boundary.simps [simp del]

text \<open>The outer \<open>while i < len(evs)\<close> loop, which builds \<open>tt_first\<close>.\<close>

function tt_loop :: "'dt event list \<Rightarrow> nat \<Rightarrow> int list \<Rightarrow> int list" where
  "tt_loop evs i tt_first =
     (if i < length evs
      then (if event (evs ! i) \<noteq> ''start'' then tt_loop evs (i + 1) tt_first
            else (let (first, j1) = scan_first evs (i + 1);
                      tt_first' = (case first of None \<Rightarrow> tt_first | Some f \<Rightarrow> tt_first @ [f]);
                      j = skip_to_boundary evs j1
                  in tt_loop evs (if j > i then j + 1 else i + 1) tt_first'))
      else tt_first)"
  by pat_completeness auto
termination
  by (relation "measure (\<lambda>(evs, i, tt_first). length evs - i)") auto

declare tt_loop.simps [simp del]

definition session_stats_in_range ::
  "'dt event list \<Rightarrow> string \<Rightarrow> string \<Rightarrow> rat option \<times> rat option \<times> rat option" where
  "session_stats_in_range events start_day end_day =
     (let evs = events_in_range events start_day end_day;
          ends = filter (\<lambda>e. event e = ''stop'' \<or> event e = ''cancel'') evs;
          stops_l = filter (\<lambda>e. event e = ''stop'') ends;
          avg_secs =
            (if ends \<noteq> [] then
               (if stops_l \<noteq> []
                then Some (of_int (sum_list (map (\<lambda>e. max 0 (secs e)) stops_l))
                           / of_int (max 1 (int (length stops_l))))
                else None)
             else None);
          cancels_l = filter (\<lambda>e. event e = ''cancel'') ends;
          cancel_rate =
            (if ends \<noteq> [] then Some (of_nat (length cancels_l) / of_nat (length ends)) else None);
          tt_first = tt_loop evs 0 [];
          avg_tt =
            (if tt_first \<noteq> [] then Some (of_int (sum_list tt_first) / of_nat (length tt_first))
             else None)
      in (avg_secs, cancel_rate, avg_tt))"

text \<open>
  The time to first procrastination as the specification words it: every \<open>start\<close> opens
  a window that runs to the next \<open>stop\<close>, \<open>cancel\<close> or \<open>start\<close>, and contributes the
  \<open>secs\<close> of the first procrastination strictly inside it, if there is one.
\<close>

fun first_in_window :: "'dt event list \<Rightarrow> int option" where
  "first_in_window [] = None"
| "first_in_window (e # es) =
     (if is_boundary e then None
      else if event e = ''procrastination'' then Some (secs e)
      else first_in_window es)"

fun spec_tt_first :: "'dt event list \<Rightarrow> int list" where
  "spec_tt_first [] = []"
| "spec_tt_first (e # es) =
     (if event e = ''start''
      then (case first_in_window es of None \<Rightarrow> [] | Some f \<Rightarrow> [f]) @ spec_tt_first es
      else spec_tt_first es)"

definition spec_avg_tt :: "'dt event list \<Rightarrow> rat option" where
  "spec_avg_tt evs =
     (let tt = spec_tt_first evs
      in if tt \<noteq> [] then Some (of_int (sum_list tt) / of_nat (length tt)) else None)"

section \<open>The application state and the adaptive interval\<close>

text \<open>
  A task's entry in \<open>state["tasks"]\<close>, a dictionary read from a JSON file: each key may be
  absent (\<open>None\<close>), which is what \<open>st.get(key, default)\<close> provides for.
\<close>

record profile =
  interval_min :: "int option"
  yes_streak :: "int option"
  color :: "string option"

text \<open>A line of the log file, as \<open>_append_log\<close> writes it:
  \<open>[now_iso(), event, task, secs, note]\<close>.\<close>

type_synonym log_row = "string \<times> string \<times> string \<times> int \<times> string"

text \<open>
  The attributes of \<open>App\<close> that the timer and the interval engine read and write. Floats
  (\<open>time.time()\<close>, the elapsed seconds) are rationals; \<open>log_file\<close> is the contents of
  the log file after its header, and \<open>target_duration_min\<close> is \<open>None\<close> when the entry
  does not hold an integer. Widgets, the refresh of the statistics and the saving of
  the state file are left out.
\<close>

record app =
  active_task :: string
  tasks :: "string \<rightharpoonup> profile"
  current_interval_min :: int
  target_duration_min :: "int option"
  session_start_ts :: "rat option"
  session_elapsed :: rat
  last_tick :: "rat option"
  next_prompt_at :: "rat option"
  status :: string
  log_file :: "log_row list"

text \<open>\<open>int(x)\<close> for a float: truncation towards zero.\<close>

definition int_trunc :: "rat \<Rightarrow> int" where
  "int_trunc x = (if x \<ge> 0 then \<lfloor>x\<rfloor> else \<lceil>x\<rceil>)"

text \<open>The truth value of \<open>self.session_start_ts\<close>: neither \<open>None\<close> nor 0.\<close>

definition session_running :: "app \<Rightarrow> bool" where
  "session_running st = (case session_start_ts st of None \<Rightarrow> False | Some t \<Rightarrow> t \<noteq> 0)"

text \<open>
  \<open>_task_state\<close>: the profile of the task, created with the defaults if it is missing
  and given a colour if it has none; the state holds the profile returned.
\<close>

definition task_state :: "string \<Rightarrow> app \<Rightarrow> profile \<times> app" where
  "task_state t st =
     (case tasks st t of
        None \<Rightarrow>
          (let p = \<lparr>interval_min = Some DEFAULT_INTERVAL_MIN, yes_streak = Some 0,
                    color = Some ''#dfe8ff''\<rparr>
           in (p, st\<lparr>tasks := (tasks st)(t \<mapsto> p)\<rparr>))
      | Some p \<Rightarrow>
          (if color p = None
           then (let p' = p\<lparr>color := Some ''#dfe8ff''\<rparr> in (p', st\<lparr>tasks := (tasks st)(t \<mapsto> p')\<rparr>))
           else (p, st)))"

text \<open>
  \<open>_append_log\<close>; \<open>ts\<close> is the value of \<open>now_iso()\<close> at the call.
\<close>

definition append_log ::
  "string \<Rightarrow> string \<Rightarrow> string \<Rightarrow> int option \<Rightarrow> string option \<Rightarrow> app \<Rightarrow> app" where
  "append_log ts evt note_s secs_override task_override st =
     (let t = (case task_override of Some t' \<Rightarrow> t' | None \<Rightarrow> strip (active_task st));
          n = (case secs_override of
                 None \<Rightarrow> if session_running st then int_trunc (session_elapsed st) else 0
               | Some v \<Rightarrow> max 0 v)
      in st\<lparr>log_file := log_file st @ [(ts, evt, t, n, note_s)]\<rparr>)"

text \<open>\<open>sep.join(parts)\<close>.\<close>

fun join :: "string \<Rightarrow> string list \<Rightarrow> string" where
  "join sep [] = []"
| "join sep [x] = x"
| "join sep (x # y # ys) = x @ sep @ join sep (y # ys)"

text \<open>\<open>_compose_note(reason, target_min, interval_min, extra)\<close>.\<close>

definition compose_note ::
  "string option \<Rightarrow> int option \<Rightarrow> int option \<Rightarrow> string option \<Rightarrow> string" where
  "compose_note reason target_min interval extra =
     (let parts1 =
            (case reason of
               None \<Rightarrow> []
             | Some r \<Rightarrow>
                 (if r = [] then []
                  else (let r' = join '' '' (split_ws (strip r)) in if r' = [] then [] else [r'])));
          kv1 = (case target_min of
                   None \<Rightarrow> []
                 | Some v \<Rightarrow> if v \<noteq> 0 then [''target_min='' @ str_int v] else []);
          kv2 = (case interval of
                   None \<Rightarrow> []
                 | Some v \<Rightarrow> if v \<noteq> 0 then [''interval_min='' @ str_int v] else []);
          kv3 = (case extra of None \<Rightarrow> [] | Some x \<Rightarrow> if x \<noteq> [] then [strip x] else []);
          kv = kv1 @ kv2 @ kv3;
          parts = parts1 @ (if kv \<noteq> [] then [join '' '' kv] else [])
      in strip (join '' | '' parts))"

text \<open>\<open>st.get("interval_min", DEFAULT_INTERVAL_MIN)\<close> and \<open>st.get("yes_streak", 0)\<close>.\<close>

definition get_interval :: "profile \<Rightarrow> int" where
  "get_interval p = (case interval_min p of None \<Rightarrow> DEFAULT_INTERVAL_MIN | Some v \<Rightarrow> v)"

definition get_streak :: "profile \<Rightarrow> int" where
  "get_streak p = (case yes_streak p of None \<Rightarrow> 0 | Some v \<Rightarrow> v)"

text \<open>\<open>App._adapt_interval\<close>.\<close>

definition adapt_interval :: "string \<Rightarrow> bool \<Rightarrow> app \<Rightarrow> app" where
  "adapt_interval ts on_task st0 =
     (let t = strip (active_task st0)
      in if t = [] then st0
         else
          (let (p, st1) = task_state t st0;
               interval0 = get_interval p;
               streak0 = get_streak p;
               (interval, streak, st2) =
                 (if on_task then
                    (let streak1 = streak0 + 1
                     in if streak1 \<ge> STREAK_FOR_STEPUP
                        then (let interval1 = clamp (interval0 + STEP_UP) MIN_INTERVAL MAX_INTERVAL
                              in (interval1, 0,
                                  append_log ts ''interval_adapt_up''
                                    (''interval_min='' @ str_int interval1) None None st1))
                        else (interval0, streak1, st1))
                  else
                    (let interval1 = clamp (interval0 - STEP_DOWN) MIN_INTERVAL MAX_INTERVAL
                     in (interval1, 0,
                         append_log ts ''interval_adapt_down''
                           (''interval_min='' @ str_int interval1) None None st1)));
               st3 = st2\<lparr>tasks := (tasks st2)(t \<mapsto> p\<lparr>interval_min := Some interval,
                                                         yes_streak := Some streak\<rparr>),
                         current_interval_min := interval\<rparr>
           in if session_running st3
              then st3\<lparr>next_prompt_at := Some (session_elapsed st3 + of_int (interval * 60)),
                       status := ''Running: '' @ t @ '' (interval '' @ str_int interval @ '' min)''\<rparr>
              else st3))"

text \<open>
  \<open>App.start_session\<close>; \<open>now\<close> and \<open>now'\<close> are the two readings of \<open>time.time()\<close>.
  \<open>st["interval_min"]\<close> raises \<open>KeyError\<close> on a profile without that key.
\<close>

definition start_session :: "string \<Rightarrow> rat \<Rightarrow> rat \<Rightarrow> app \<Rightarrow> error + app" where
  "start_session ts now now' st0 =
     (let t = strip (active_task st0)
      in if t = [] then Inr st0
         else
          (let (p, st1) = task_state t st0;
               st2 = st1\<lparr>current_interval_min := get_interval p,
                         session_start_ts := Some now, session_elapsed := 0,
                         last_tick := Some now'\<rparr>
           in case interval_min p of
                None \<Rightarrow> Inl KeyError
              | Some iv \<Rightarrow>
                  (let st3 = st2\<lparr>next_prompt_at := Some (of_int (iv * 60))\<rparr>;
                       tmin = target_duration_min st3;
                       interval_now = current_interval_min st3;
                       note_s = compose_note None tmin (Some interval_now) None;
                       st4 = st3\<lparr>status := ''Running: '' @ t @ '' (interval '' @ str_int iv
                                              @ '' min)''\<rparr>
                   in Inr (append_log ts ''start'' note_s None None st4))))"

text \<open>
  \<open>App.mark_procrastination\<close>; \<open>reason\<close> is what the dialog returns, \<open>None\<close> when it
  is dismissed.
\<close>

definition mark_procrastination :: "string \<Rightarrow> string option \<Rightarrow> app \<Rightarrow> app" where
  "mark_procrastination ts reason st =
     (if \<not> session_running st then st
      else case reason of
             None \<Rightarrow> st
           | Some r \<Rightarrow>
               (let tmin = target_duration_min st;
                    interval_now = current_interval_min st
                in adapt_interval ts False
                     (append_log ts ''procrastination''
                        (compose_note (Some r) tmin (Some interval_now) None) None None st)))"

text \<open>
  \<open>App._prompt_checkin\<close> from the answer on: \<open>answer\<close> is \<open>result["on_task"]\<close> when the
  window closes and \<open>reason\<close> the result of the second dialog, asked after a "no".
\<close>

definition prompt_checkin :: "string \<Rightarrow> bool option \<Rightarrow> string option \<Rightarrow> app \<Rightarrow> app" where
  "prompt_checkin ts answer reason st =
     (let interval_now = current_interval_min st;
          tmin = target_duration_min st
      in case answer of
           None \<Rightarrow> st
         | Some True \<Rightarrow>
             adapt_interval ts True
               (append_log ts ''checkin_on_task''
                  (compose_note None tmin (Some interval_now) None) None None st)
         | Some False \<Rightarrow>
             (case reason of
                None \<Rightarrow> st
              | Some r \<Rightarrow>
                  adapt_interval ts False
                    (append_log ts ''checkin_off_task''
                       (compose_note (Some r) tmin (Some interval_now) None) None None st)))"

text \<open>
  A run of check-ins that are all answered "yes", one per time stamp of the list.
\<close>

definition on_task_responses :: "string list \<Rightarrow> app \<Rightarrow> app" where
  "on_task_responses tss st = fold (\<lambda>ts. prompt_checkin ts (Some True) None) tss st"

text \<open>The interval and the streak that the state holds for a task.\<close>

definition task_interval :: "app \<Rightarrow> string \<Rightarrow> int" where
  "task_interval st t = (case tasks st t of None \<Rightarrow> DEFAULT_INTERVAL_MIN | Some p \<Rightarrow> get_interval p)"

definition task_streak :: "app \<Rightarrow> string \<Rightarrow> int" where
  "task_streak st t = (case tasks st t of None \<Rightarrow> 0 | Some p \<Rightarrow> get_streak p)"

text \<open>
  The interval and the streak that one step of \<open>_adapt_interval\<close> computes from the
  old ones: the branches of the function, used to state the lemmas about it.
\<close>

definition next_interval :: "bool \<Rightarrow> int \<Rightarrow> int \<Rightarrow> int" where
  "next_interval on_task i s =
     (if on_task
      then (if s + 1 \<ge> STREAK_FOR_STEPUP then clamp (i + STEP_UP) MIN_INTERVAL MAX_INTERVAL else i)
      else clamp (i - STEP_DOWN) MIN_INTERVAL MAX_INTERVAL)"

definition next_streak :: "bool \<Rightarrow> int \<Rightarrow> int" where
  "next_streak on_task s = (if on_task \<and> s + 1 < STREAK_FOR_STEPUP then s + 1 else 0)"

text \<open>
  The attributes as \<open>App.__init__\<close> sets them, for the task profiles read from the state
  file and the lines already in the log.
\<close>

definition init_app :: "(string \<rightharpoonup> profile) \<Rightarrow> log_row list \<Rightarrow> app" where
  "init_app tasks0 log0 =
     \<lparr>active_task = ''Deep work'', tasks = tasks0,
      current_interval_min = DEFAULT_INTERVAL_MIN, target_duration_min = Some 30,
      session_start_ts = None, session_elapsed = 0, last_tick = None,
      next_prompt_at = None, status = ''Idle'', log_file = log0\<rparr>"

section \<open>Sample data and notions for the statements\<close>

text \<open>
  Two states for the logging of adaptations, both with the task \<open>Write\<close> active and
  no session running: one whose profile is at the upper bound with one "yes" counted,
  one whose profile is at the lower bound.
\<close>

definition at_upper_bound :: app where
  "at_upper_bound =
     (init_app [''Write'' \<mapsto> \<lparr>interval_min = Some 30, yes_streak = Some 1,
                               color = Some ''#dfe8ff''\<rparr>] [])\<lparr>active_task := ''Write''\<rparr>"

definition at_lower_bound :: app where
  "at_lower_bound =
     (init_app [''Write'' \<mapsto> \<lparr>interval_min = Some 3, yes_streak = Some 0,
                               color = Some ''#dfe8ff''\<rparr>] [])\<lparr>active_task := ''Write''\<rparr>"

text \<open>
  The minutes an event carries in its note: the value of \<open>interval_min\<close>, and 0 when
  the note has none.
\<close>

definition note_minutes :: "'dt event \<Rightarrow> int" where
  "note_minutes e =
     (case safe_int_from_note (note_str e) ''interval_min'' of None \<Rightarrow> 0 | Some v \<Rightarrow> v)"

text \<open>
  For the statements about \<open>sessions_by_task_in_range\<close>: the \<open>stop\<close> events and the
  \<open>cancel\<close> events of a list that carry a given task label, and the counts they add to
  a task's record.
\<close>

definition stops_of :: "'dt event list \<Rightarrow> string \<Rightarrow> 'dt event list" where
  "stops_of evs t = filter (\<lambda>e. event e = ''stop'' \<and> task_label e = t) evs"

definition cancels_of :: "'dt event list \<Rightarrow> string \<Rightarrow> 'dt event list" where
  "cancels_of evs t = filter (\<lambda>e. event e = ''cancel'' \<and> task_label e = t) evs"

definition add_counts :: "rec \<Rightarrow> 'dt event list \<Rightarrow> string \<Rightarrow> rec" where
  "add_counts r evs t =
     \<lparr>rec_sessions = rec_sessions r + int (length (stops_of evs t)),
      rec_total_secs = rec_total_secs r + sum_list (map secs (stops_of evs t)),
      rec_cancels = rec_cancels r + int (length (cancels_of evs t))\<rparr>"

definition zero_rec :: rec where
  "zero_rec = \<lparr>rec_sessions = 0, rec_total_secs = 0, rec_cancels = 0\<rparr>"

text \<open>The row of a task label over a list of events, written out from those counts.\<close>

definition task_row_of :: "'dt event list \<Rightarrow> string \<Rightarrow> task_row" where
  "task_row_of evs t =
     (t, int (length (stops_of evs t)), sum_list (map secs (stops_of evs t)),
      (if stops_of evs t \<noteq> []
       then Some (of_int (sum_list (map secs (stops_of evs t))) / of_nat (length (stops_of evs t)))
       else None),
      int (length (cancels_of evs t)))"

text \<open>
  A log for the statements about cancelled sessions: on 1 January the task \<open>Write\<close> is
  started, marked and cancelled and the task \<open>Read\<close> is stopped after 30 minutes; a second
  \<open>Write\<close> session is stopped on 5 January.
\<close>

definition cancel_only_log :: "nat event list" where
  "cancel_only_log =
     [\<lparr>dt = 1, day = ''2024-01-01'', event = ''start'', task = ''Write'', secs = 0,
       note_str = ''target_min=30 interval_min=10'', timestamp = ''2024-01-01 09:00:00''\<rparr>,
      \<lparr>dt = 2, day = ''2024-01-01'', event = ''procrastination'', task = ''Write'', secs = 300,
       note_str = ''mail | target_min=30 interval_min=10'', timestamp = ''2024-01-01 09:05:00''\<rparr>,
      \<lparr>dt = 3, day = ''2024-01-01'', event = ''cancel'', task = ''Write'', secs = 360,
       note_str = ''target_min=30 interval_min=7'', timestamp = ''2024-01-01 09:06:00''\<rparr>,
      \<lparr>dt = 4, day = ''2024-01-01'', event = ''stop'', task = ''Read'', secs = 1800,
       note_str = ''target_min=30 interval_min=10'', timestamp = ''2024-01-01 11:00:00''\<rparr>,
      \<lparr>dt = 5, day = ''2024-01-05'', event = ''stop'', task = ''Write'', secs = 1200,
       note_str = ''target_min=30 interval_min=7'', timestamp = ''2024-01-05 10:00:00''\<rparr>]"

text \<open>
  A log file of two lines for the statements about \<open>load\<close>, with the line whose seconds
  are not an integer and the line whose timestamp is malformed, and the results of
  \<open>parse_ts\<close> and \<open>day_key\<close> on its timestamps (the seconds since midnight stand for the
  \<open>datetime\<close>).
\<close>

definition good_row :: csv_row where
  "good_row =
     [''timestamp'' \<mapsto> Some ''2024-01-01 10:00:00'', ''event'' \<mapsto> Some ''start'',
      ''task'' \<mapsto> Some ''Write'', ''session_seconds'' \<mapsto> Some ''0'',
      ''note'' \<mapsto> Some ''target_min=30 interval_min=10'']"

definition bad_secs_row :: csv_row where
  "bad_secs_row =
     [''timestamp'' \<mapsto> Some ''2024-01-01 10:30:00'', ''event'' \<mapsto> Some ''stop'',
      ''task'' \<mapsto> Some ''Write'', ''session_seconds'' \<mapsto> Some ''12.5'',
      ''note'' \<mapsto> Some ''target_min=30 interval_min=10'']"

definition bad_ts_row :: csv_row where
  "bad_ts_row =
     [''timestamp'' \<mapsto> Some ''yesterday'', ''event'' \<mapsto> Some ''stop'',
      ''task'' \<mapsto> Some ''Write'', ''session_seconds'' \<mapsto> Some ''1800'',
      ''note'' \<mapsto> Some ''target_min=30 interval_min=10'']"

definition sample_parse_ts :: "string \<Rightarrow> nat option" where
  "sample_parse_ts s =
     (if s = ''2024-01-01 10:00:00'' then Some 36000
      else if s = ''2024-01-01 10:30:00'' then Some 37800
      else None)"

definition sample_day_key :: "nat \<Rightarrow> string" where
  "sample_day_key d = ''2024-01-01''"

text \<open>
  A log in which a session is started again before it is stopped: two \<open>start\<close> events
  in a row, then a procrastination 300 seconds into the session.
\<close>

definition restart_log :: "nat event list" where
  "restart_log =
     [\<lparr>dt = 1, day = ''2024-01-01'', event = ''start'', task = ''Write'', secs = 0,
       note_str = ''target_min=30 interval_min=10'', timestamp = ''2024-01-01 09:00:00''\<rparr>,
      \<lparr>dt = 2, day = ''2024-01-01'', event = ''start'', task = ''Write'', secs = 0,
       note_str = ''target_min=30 interval_min=10'', timestamp = ''2024-01-01 09:01:00''\<rparr>,
      \<lparr>dt = 3, day = ''2024-01-01'', event = ''procrastination'', task = ''Write'', secs = 300,
       note_str = ''mail | target_min=30 interval_min=10'', timestamp = ''2024-01-01 09:06:00''\<rparr>]"

text \<open>
  A list of events without a restart: the window of every \<open>start\<close> is closed by a
  \<open>stop\<close>, a \<open>cancel\<close> or the end of the list, never by another \<open>start\<close>.
\<close>

fun no_restart :: "'dt event list \<Rightarrow> bool" where
  "no_restart [] = True"
| "no_restart (e # es) =
     ((if event e = ''start''
       then (case dropWhile (\<lambda>x. \<not> is_boundary x) es of
               [] \<Rightarrow> True
             | b # _ \<Rightarrow> event b = ''stop'' \<or> event b = ''cancel'')
       else True)
      \<and> no_restart es)"

text \<open>
  The record that \<open>load\<close> builds from a row whose timestamp parses and whose seconds are
  an integer; \<open>None\<close> for a row it cannot build one from.
\<close>

definition record_of ::
  "(string \<Rightarrow> 'dt option) \<Rightarrow> ('dt \<Rightarrow> string) \<Rightarrow> csv_row \<Rightarrow> 'dt event option" where
  "record_of parse_ts day_key row =
     (case row_get row ''timestamp'' [] of
        None \<Rightarrow> None
      | Some ts \<Rightarrow>
          (case parse_ts ts of
             None \<Rightarrow> None
           | Some d \<Rightarrow>
               (case row_secs row of
                  None \<Rightarrow> None
                | Some n \<Rightarrow>
                    Some \<lparr>dt = d, day = day_key d,
                          event = strip (or_empty (row_get row ''event'' [])),
                          task = strip (or_empty (row_get row ''task'' [])),
                          secs = n,
                          note_str = or_empty (row_get row ''note'' []),
                          timestamp = ts\<rparr>)))"

text \<open>A row whose timestamp parses but whose seconds are not an integer.\<close>

definition bad_seconds :: "(string \<Rightarrow> 'dt option) \<Rightarrow> csv_row \<Rightarrow> bool" where
  "bad_seconds parse_ts row =
     (case row_get row ''timestamp'' [] of
        None \<Rightarrow> False
      | Some ts \<Rightarrow> (case parse_ts ts of None \<Rightarrow> False | Some d \<Rightarrow> row_secs row = None))"

section \<open>Properties of \<open>safe_int_from_note\<close>\<close>

lemma scan_parts_first:
  "\<forall>q\<in>set pre. \<not> startswith q (k @ ''='') \<Longrightarrow> startswith p (k @ ''='') \<Longrightarrow>
   scan_parts k (pre @ p # rest) = Option.bind (after_eq p) py_int"
  by (induction pre) (auto split: option.splits)

lemma scan_parts_no_match:
  "\<forall>q\<in>set ps. \<not> startswith q (k @ ''='') \<Longrightarrow> scan_parts k ps = None"
  by (induction ps) auto

lemma after_eq_startswith:
  assumes "startswith p (k @ ''='')" and "CHR ''='' \<notin> set k"
  shows "after_eq p = Some (drop (length k + 1) p)"
proof -
  from assms(1) have "take (length k + 1) p = k @ ''=''"
    by (simp add: startswith_def)
  then have p: "p = k @ CHR ''='' # drop (length k + 1) p"
    by (metis append_take_drop_id append.assoc append_Cons append_Nil)
  have "dropWhile (\<lambda>c. c \<noteq> CHR ''='') (k @ CHR ''='' # drop (length k + 1) p)
        = CHR ''='' # drop (length k + 1) p"
    using assms(2) by (subst dropWhile_append2) auto
  with p show ?thesis
    by (simp add: after_eq_def split: list.splits)
qed

text \<open>
  Claim C9. The extractor has first-match semantics. Let the parts of the note (its
  commas replaced by spaces, split at whitespace) be \<open>pre @ p # rest\<close>, where no part of
  \<open>pre\<close> starts with \<open>key=\<close> and \<open>p\<close> does. Then the result is decided by \<open>p\<close> alone:
  it is \<open>int\<close> of what follows the first \<open>=\<close> of \<open>p\<close>, and \<open>None\<close> when that is not an
  integer, whatever \<open>rest\<close> holds. For a key without \<open>=\<close> the value read is \<open>p\<close> after
  \<open>key=\<close>.
\<close>

theorem safe_int_from_note_first_match:
  assumes "split_ws (replace_comma n) = pre @ p # rest"
    and "\<forall>q\<in>set pre. \<not> startswith q (k @ ''='')"
    and "startswith p (k @ ''='')"
  shows "safe_int_from_note n k = Option.bind (after_eq p) py_int
         \<and> (CHR ''='' \<notin> set k \<longrightarrow> after_eq p = Some (drop (length k + 1) p))"
proof -
  have "n \<noteq> []"
    using assms(1) by (auto simp: split_ws_def replace_comma_def)
  then have "safe_int_from_note n k = scan_parts k (pre @ p # rest)"
    using assms(1) by (simp add: safe_int_from_note_def)
  then show ?thesis
    using scan_parts_first [OF assms(2,3)] after_eq_startswith [OF assms(3)] by simp
qed

theorem safe_int_from_note_first_match_witness:
  "split_ws (replace_comma ''late,interval_min=x interval_min=12'')
     = [''late''] @ ''interval_min=x'' # [''interval_min=12'']
   \<and> \<not> startswith ''late'' (''interval_min'' @ ''='')
   \<and> startswith ''interval_min=x'' (''interval_min'' @ ''='')
   \<and> safe_int_from_note ''late,interval_min=x interval_min=12'' ''interval_min'' = None
   \<and> safe_int_from_note ''interval_min=12'' ''interval_min'' = Some 12"
proof -
  have a: "split_ws (replace_comma ''late,interval_min=x interval_min=12'')
     = [''late''] @ ''interval_min=x'' # [''interval_min=12'']" by code_simp
  have b: "\<forall>q\<in>set [''late'']. \<not> startswith q (''interval_min'' @ ''='')" by code_simp
  have c: "startswith ''interval_min=x'' (''interval_min'' @ ''='')" by code_simp
  have d: "Option.bind (after_eq ''interval_min=x'') py_int = None" by code_simp
  have e: "safe_int_from_note ''interval_min=12'' ''interval_min'' = Some 12" by code_simp
  from safe_int_from_note_first_match [OF a b c] a b c d e show ?thesis by simp
qed

section \<open>Properties of the adaptive interval\<close>

lemma append_log_fields [simp]:
  "tasks (append_log ts evt n so tov st) = tasks st"
  "active_task (append_log ts evt n so tov st) = active_task st"
  "session_start_ts (append_log ts evt n so tov st) = session_start_ts st"
  "session_elapsed (append_log ts evt n so tov st) = session_elapsed st"
  "current_interval_min (append_log ts evt n so tov st) = current_interval_min st"
  "target_duration_min (append_log ts evt n so tov st) = target_duration_min st"
  by (simp_all add: append_log_def Let_def)

lemma session_running_append_log [simp]:
  "session_running (append_log ts evt n so tov st) = session_running st"
  by (simp add: session_running_def)

lemma task_interval_append_log [simp]:
  "task_interval (append_log ts evt n so tov st) t = task_interval st t"
  by (simp add: task_interval_def)

lemma task_streak_append_log [simp]:
  "task_streak (append_log ts evt n so tov st) t = task_streak st t"
  by (simp add: task_streak_def)

lemma task_state_profile:
  "task_state t st = (p, st1) \<Longrightarrow>
     get_interval p = task_interval st t \<and> get_streak p = task_streak st t
     \<and> active_task st1 = active_task st \<and> log_file st1 = log_file st
     \<and> session_start_ts st1 = session_start_ts st \<and> session_elapsed st1 = session_elapsed st"
  by (auto simp: task_state_def task_interval_def task_streak_def get_interval_def
      get_streak_def Let_def split: option.splits if_splits)

lemma adapt_interval_active_task [simp]:
  "active_task (adapt_interval ts b st) = active_task st"
proof (cases "task_state (strip (active_task st)) st")
  case (Pair p st1)
  then show ?thesis
    using task_state_profile [OF Pair]
    by (simp add: adapt_interval_def Let_def)
qed

lemma adapt_interval_profile:
  assumes "strip (active_task st) = t" and "t \<noteq> []"
  shows "task_interval (adapt_interval ts b st) t = next_interval b (task_interval st t) (task_streak st t)"
    and "task_streak (adapt_interval ts b st) t = next_streak b (task_streak st t)"
proof -
  obtain p st1 where ts1: "task_state t st = (p, st1)" by (cases "task_state t st")
  note f = task_state_profile [OF ts1]
  show "task_interval (adapt_interval ts b st) t = next_interval b (task_interval st t) (task_streak st t)"
    using assms ts1 f
    by (simp add: adapt_interval_def Let_def next_interval_def task_interval_def get_interval_def)
  show "task_streak (adapt_interval ts b st) t = next_streak b (task_streak st t)"
    using assms ts1 f
    by (simp add: adapt_interval_def Let_def next_streak_def task_streak_def get_streak_def)
qed

lemma adapt_interval_log:
  assumes "strip (active_task st) = t" and "t \<noteq> []"
  shows "log_file (adapt_interval ts b st) =
           log_file st @
           (if b \<and> task_streak st t + 1 < STREAK_FOR_STEPUP then []
            else [(ts, if b then ''interval_adapt_up'' else ''interval_adapt_down'', t,
                   if session_running st then int_trunc (session_elapsed st) else 0,
                   ''interval_min='' @ str_int (next_interval b (task_interval st t) (task_streak st t)))])"
proof -
  obtain p st1 where ts1: "task_state t st = (p, st1)" by (cases "task_state t st")
  note f = task_state_profile [OF ts1]
  show ?thesis
    using assms ts1 f
    by (simp add: adapt_interval_def Let_def next_interval_def append_log_def session_running_def)
qed

lemma prompt_checkin_yes:
  "prompt_checkin ts (Some True) r st =
     adapt_interval ts True
       (append_log ts ''checkin_on_task''
          (compose_note None (target_duration_min st) (Some (current_interval_min st)) None)
          None None st)"
  by (simp add: prompt_checkin_def Let_def)

lemma prompt_checkin_no:
  "prompt_checkin ts (Some False) (Some r) st =
     adapt_interval ts False
       (append_log ts ''checkin_off_task''
          (compose_note (Some r) (target_duration_min st) (Some (current_interval_min st)) None)
          None None st)"
  by (simp add: prompt_checkin_def Let_def)

lemma mark_procrastination_running:
  "session_running st \<Longrightarrow>
   mark_procrastination ts (Some r) st =
     adapt_interval ts False
       (append_log ts ''procrastination''
          (compose_note (Some r) (target_duration_min st) (Some (current_interval_min st)) None)
          None None st)"
  by (simp add: mark_procrastination_def Let_def)

lemma on_task_step:
  assumes "strip (active_task st) = t" and "t \<noteq> []"
  shows "task_interval (prompt_checkin ts (Some True) r st) t
           = next_interval True (task_interval st t) (task_streak st t)"
    and "task_streak (prompt_checkin ts (Some True) r st) t = next_streak True (task_streak st t)"
    and "strip (active_task (prompt_checkin ts (Some True) r st)) = t"
  using assms by (simp_all add: prompt_checkin_yes adapt_interval_profile)

lemma on_task_responses_closed_form:
  assumes "strip (active_task st) = t" and "t \<noteq> []"
    and "MIN_INTERVAL \<le> task_interval st t" and "task_interval st t \<le> MAX_INTERVAL"
    and "0 \<le> task_streak st t" and "task_streak st t < STREAK_FOR_STEPUP"
  shows "task_interval (on_task_responses tss st) t
           = min MAX_INTERVAL
               (task_interval st t + STEP_UP * ((task_streak st t + int (length tss)) div 2))
         \<and> task_streak (on_task_responses tss st) t = (task_streak st t + int (length tss)) mod 2"
  using assms
proof (induction tss arbitrary: st)
  case Nil
  then show ?case
    by (simp add: on_task_responses_def STREAK_FOR_STEPUP_def)
next
  case (Cons ts tss)
  let ?st1 = "prompt_checkin ts (Some True) None st"
  note step = on_task_step [OF Cons.prems(1,2), of ts None]
  have s01: "task_streak st t = 0 \<or> task_streak st t = 1"
    using Cons.prems(5,6) by (auto simp: STREAK_FOR_STEPUP_def)
  have i1: "task_interval ?st1 t = (if task_streak st t = 1 then min 30 (task_interval st t + 2) else task_interval st t)"
    using step(1) s01 Cons.prems(3,4)
    by (auto simp: next_interval_def clamp_def STREAK_FOR_STEPUP_def STEP_UP_def
        MIN_INTERVAL_def MAX_INTERVAL_def)
  have s1: "task_streak ?st1 t = (if task_streak st t = 1 then 0 else 1)"
    using step(2) s01 by (auto simp: next_streak_def STREAK_FOR_STEPUP_def)
  have b1: "MIN_INTERVAL \<le> task_interval ?st1 t" "task_interval ?st1 t \<le> MAX_INTERVAL"
    using i1 Cons.prems(3,4) by (auto simp: MIN_INTERVAL_def MAX_INTERVAL_def)
  have b2: "0 \<le> task_streak ?st1 t" "task_streak ?st1 t < STREAK_FOR_STEPUP"
    using s1 by (auto simp: STREAK_FOR_STEPUP_def)
  have unfold: "on_task_responses (ts # tss) st = on_task_responses tss ?st1"
    by (simp add: on_task_responses_def)
  note IH = Cons.IH [OF step(3) Cons.prems(2) b1 b2]
  show ?case
  proof (cases "task_streak st t = 1")
    case True
    have d: "(1 + (1 + int (length tss))) div 2 = 1 + int (length tss) div 2" by simp
    have m: "(1 + (1 + int (length tss))) mod 2 = int (length tss) mod 2" by presburger
    have k: "min 30 (min 30 (i + 2) + k) = min (30::int) (i + (k + 2))" if "0 \<le> k" for i k
      using that by (auto simp: min_def)
    have "(0::int) \<le> 2 * (int (length tss) div 2)" by simp
    note k' = k [OF this]
    show ?thesis
      using IH True i1 s1 d m unfolding unfold
      by (simp add: MAX_INTERVAL_def STEP_UP_def k')
  next
    case False
    then have z: "task_streak st t = 0" using s01 by simp
    show ?thesis
      using IH z i1 s1 unfolding unfold
      by (simp add: MAX_INTERVAL_def STEP_UP_def)
  qed
qed

lemma on_task_responses_active_task:
  "active_task (on_task_responses tss st) = active_task st"
  by (induction tss arbitrary: st) (simp_all add: on_task_responses_def prompt_checkin_yes)

lemma strip_Write: "strip ''Write'' = ''Write''"
  by code_simp

lemma init_app_fields [simp]:
  "tasks (init_app tasks0 log0) = tasks0"
  "log_file (init_app tasks0 log0) = log0"
  "session_start_ts (init_app tasks0 log0) = None"
  "session_elapsed (init_app tasks0 log0) = 0"
  "active_task (init_app tasks0 log0) = ''Deep work''"
  by (simp_all add: init_app_def)

text \<open>
  Claim C4. Take a task whose profile holds an interval within \<open>[3, 30]\<close> and a streak
  below the threshold (0 or 1, as every writer leaves it), and answer any number of
  check-ins "yes". Then the interval stays within \<open>[3, 30]\<close>; it is the initial interval
  plus 2 for every second consecutive "yes" counted from the streak, cut off at 30; the
  streak is the count modulo 2; and one more "yes" raises the interval, by 2 and at most
  to 30, exactly when it is the second in a row, resetting the streak to 0, while the
  first in a row leaves the interval as it is.
\<close>

theorem on_task_responses_interval:
  assumes "strip (active_task st) = t" and "t \<noteq> []"
    and "MIN_INTERVAL \<le> task_interval st t" and "task_interval st t \<le> MAX_INTERVAL"
    and "0 \<le> task_streak st t" and "task_streak st t < STREAK_FOR_STEPUP"
  shows "MIN_INTERVAL \<le> task_interval (on_task_responses tss st) t
       \<and> task_interval (on_task_responses tss st) t \<le> MAX_INTERVAL
       \<and> task_interval (on_task_responses tss st) t
           = min 30 (task_interval st t + 2 * ((task_streak st t + int (length tss)) div 2))
       \<and> task_streak (on_task_responses tss st) t = (task_streak st t + int (length tss)) mod 2
       \<and> task_interval (on_task_responses (tss @ [ts]) st) t
           = (if task_streak (on_task_responses tss st) t = 1
              then min 30 (task_interval (on_task_responses tss st) t + 2)
              else task_interval (on_task_responses tss st) t)
       \<and> task_streak (on_task_responses (tss @ [ts]) st) t
           = (if task_streak (on_task_responses tss st) t = 1 then 0 else 1)"
proof -
  let ?st' = "on_task_responses tss st"
  note cf = on_task_responses_closed_form [OF assms, of tss]
  have i: "task_interval ?st' t
             = min 30 (task_interval st t + 2 * ((task_streak st t + int (length tss)) div 2))"
    using cf by (simp add: MAX_INTERVAL_def STEP_UP_def)
  have s: "task_streak ?st' t = (task_streak st t + int (length tss)) mod 2"
    using cf by simp
  have "0 \<le> (task_streak st t + int (length tss)) div 2"
    using assms(5) by (simp add: pos_imp_zdiv_nonneg_iff)
  then have nonneg: "0 \<le> 2 * ((task_streak st t + int (length tss)) div 2)"
    by linarith
  have lo: "MIN_INTERVAL \<le> task_interval ?st' t"
    unfolding i MIN_INTERVAL_def using assms(3) nonneg
    by (simp only: MIN_INTERVAL_def min_def split: if_splits) linarith
  have hi: "task_interval ?st' t \<le> MAX_INTERVAL"
    using i by (simp add: MAX_INTERVAL_def)
  have s01: "task_streak ?st' t = 0 \<or> task_streak ?st' t = 1"
    unfolding s by presburger
  have act: "strip (active_task ?st') = t"
    using assms(1) by (simp add: on_task_responses_active_task)
  have snoc: "on_task_responses (tss @ [ts]) st = prompt_checkin ts (Some True) None ?st'"
    by (simp add: on_task_responses_def)
  note step = on_task_step [OF act assms(2), of ts None]
  have i': "task_interval (on_task_responses (tss @ [ts]) st) t
              = (if task_streak ?st' t = 1 then min 30 (task_interval ?st' t + 2)
                 else task_interval ?st' t)"
    unfolding snoc step(1) using s01 lo hi
    by (auto simp: next_interval_def clamp_def STREAK_FOR_STEPUP_def STEP_UP_def
        MIN_INTERVAL_def MAX_INTERVAL_def)
  have s': "task_streak (on_task_responses (tss @ [ts]) st) t
              = (if task_streak ?st' t = 1 then 0 else 1)"
    unfolding snoc step(2) using s01
    by (auto simp: next_streak_def STREAK_FOR_STEPUP_def)
  from lo hi i s i' s' show ?thesis by simp
qed

theorem on_task_responses_interval_witness:
  "strip (active_task ((init_app Map.empty [])\<lparr>active_task := ''Write''\<rparr>)) = ''Write''
   \<and> ''Write'' \<noteq> []
   \<and> task_interval ((init_app Map.empty [])\<lparr>active_task := ''Write''\<rparr>) ''Write'' = 10
   \<and> task_streak ((init_app Map.empty [])\<lparr>active_task := ''Write''\<rparr>) ''Write'' = 0
   \<and> task_interval
        (on_task_responses [''2024-01-01 10:10:00'', ''2024-01-01 10:20:00'', ''2024-01-01 10:32:00'']
           ((init_app Map.empty [])\<lparr>active_task := ''Write''\<rparr>)) ''Write'' = 12
   \<and> task_streak
        (on_task_responses [''2024-01-01 10:10:00'', ''2024-01-01 10:20:00'', ''2024-01-01 10:32:00'']
           ((init_app Map.empty [])\<lparr>active_task := ''Write''\<rparr>)) ''Write'' = 1
   \<and> task_interval
        (on_task_responses ([''2024-01-01 10:10:00'', ''2024-01-01 10:20:00'', ''2024-01-01 10:32:00'']
            @ [''2024-01-01 10:44:00''])
           ((init_app Map.empty [])\<lparr>active_task := ''Write''\<rparr>)) ''Write'' = 14"
proof -
  let ?st = "(init_app Map.empty [])\<lparr>active_task := ''Write''\<rparr>"
  have a: "strip (active_task ?st) = ''Write''" by (simp add: strip_Write)
  have b: "''Write'' \<noteq> []" by simp
  have i: "task_interval ?st ''Write'' = 10"
    by (simp add: task_interval_def DEFAULT_INTERVAL_MIN_def)
  have s: "task_streak ?st ''Write'' = 0" by (simp add: task_streak_def)
  have c: "MIN_INTERVAL \<le> task_interval ?st ''Write''" by (simp add: i MIN_INTERVAL_def)
  have d: "task_interval ?st ''Write'' \<le> MAX_INTERVAL" by (simp add: i MAX_INTERVAL_def)
  have e: "0 \<le> task_streak ?st ''Write''" by (simp add: s)
  have f: "task_streak ?st ''Write'' < STREAK_FOR_STEPUP" by (simp add: s STREAK_FOR_STEPUP_def)
  from on_task_responses_interval [OF a b c d e f,
      of "[''2024-01-01 10:10:00'', ''2024-01-01 10:20:00'', ''2024-01-01 10:32:00'']"
         "''2024-01-01 10:44:00''"]
  show ?thesis using a i s by simp
qed

text \<open>
  Claim C5. While a session runs on a task whose interval is at most 30, an off-task
  answer to a check-in and a procrastination mark (each with its reason given) both set
  the task's interval to the old one minus 3, but not below 3, and the streak to 0,
  whatever the streak was.
\<close>

theorem off_task_interval:
  assumes "strip (active_task st) = t" and "t \<noteq> []"
    and "session_running st" and "task_interval st t \<le> MAX_INTERVAL"
  shows "task_interval (prompt_checkin ts (Some False) (Some r) st) t
           = max 3 (task_interval st t - 3)
       \<and> task_streak (prompt_checkin ts (Some False) (Some r) st) t = 0
       \<and> task_interval (mark_procrastination ts (Some r) st) t = max 3 (task_interval st t - 3)
       \<and> task_streak (mark_procrastination ts (Some r) st) t = 0"
proof -
  have n: "next_interval False (task_interval st t) s = max 3 (task_interval st t - 3)" for s
    using assms(4)
    by (simp add: next_interval_def clamp_def MIN_INTERVAL_def MAX_INTERVAL_def STEP_DOWN_def)
  have z: "next_streak False s = 0" for s
    by (simp add: next_streak_def)
  show ?thesis
    using assms(1,2,3)
    by (simp add: prompt_checkin_no mark_procrastination_running adapt_interval_profile n z)
qed

theorem off_task_interval_witness:
  "strip (active_task (at_upper_bound\<lparr>session_start_ts := Some 1000\<rparr>)) = ''Write''
   \<and> ''Write'' \<noteq> []
   \<and> session_running (at_upper_bound\<lparr>session_start_ts := Some 1000\<rparr>)
   \<and> task_interval (at_upper_bound\<lparr>session_start_ts := Some 1000\<rparr>) ''Write'' = 30
   \<and> task_streak (at_upper_bound\<lparr>session_start_ts := Some 1000\<rparr>) ''Write'' = 1
   \<and> task_interval
        (prompt_checkin ''2024-01-01 10:30:00'' (Some False) (Some ''mail'')
           (at_upper_bound\<lparr>session_start_ts := Some 1000\<rparr>)) ''Write'' = 27
   \<and> task_streak
        (prompt_checkin ''2024-01-01 10:30:00'' (Some False) (Some ''mail'')
           (at_upper_bound\<lparr>session_start_ts := Some 1000\<rparr>)) ''Write'' = 0
   \<and> task_interval
        (mark_procrastination ''2024-01-01 10:30:00'' (Some ''mail'')
           (at_upper_bound\<lparr>session_start_ts := Some 1000\<rparr>)) ''Write'' = 27
   \<and> task_streak
        (mark_procrastination ''2024-01-01 10:30:00'' (Some ''mail'')
           (at_upper_bound\<lparr>session_start_ts := Some 1000\<rparr>)) ''Write'' = 0"
proof -
  let ?st = "at_upper_bound\<lparr>session_start_ts := Some 1000\<rparr>"
  have a: "strip (active_task ?st) = ''Write''" by (simp add: at_upper_bound_def strip_Write)
  have b: "''Write'' \<noteq> []" by simp
  have c: "session_running ?st" by (simp add: session_running_def)
  have i: "task_interval ?st ''Write'' = 30"
    by (simp add: task_interval_def at_upper_bound_def get_interval_def)
  have s: "task_streak ?st ''Write'' = 1"
    by (simp add: task_streak_def at_upper_bound_def get_streak_def)
  have d: "task_interval ?st ''Write'' \<le> MAX_INTERVAL" by (simp add: i MAX_INTERVAL_def)
  from off_task_interval [OF a b c d, of "''2024-01-01 10:30:00''" "''mail''"]
  show ?thesis using a c i s by simp
qed

text \<open>
  Claim C8. With an active task that is empty or only whitespace, \<open>start_session\<close>
  returns at once and the whole state is as before: the log, the task profiles, the
  start time, the elapsed time and the threshold of the next check-in.
\<close>

theorem start_session_empty_task:
  "strip (active_task st) = [] \<Longrightarrow> start_session ts now now' st = Inr st"
  by (simp add: start_session_def)

theorem start_session_empty_task_witness:
  "strip (active_task ((init_app Map.empty [])\<lparr>active_task := ''   ''\<rparr>)) = []
   \<and> start_session ''2024-01-01 10:00:00'' 1000 1000
        ((init_app Map.empty [])\<lparr>active_task := ''   ''\<rparr>)
       = Inr ((init_app Map.empty [])\<lparr>active_task := ''   ''\<rparr>)"
proof -
  have "strip ''   '' = []" by code_simp
  then have a: "strip (active_task ((init_app Map.empty [])\<lparr>active_task := ''   ''\<rparr>)) = []"
    by simp
  from start_session_empty_task [OF a] a show ?thesis by simp
qed

text \<open>
  Claim C2, as the code has it. For a step on a non-empty active task, the log grows by
  exactly one adaptation event, carrying the new interval, unless the step is an on-task
  answer that leaves the streak below the threshold, in which case it does not grow. So
  every step that changes the interval is logged. The event does not depend on the
  interval having changed.
\<close>

theorem adapt_interval_logging:
  assumes "strip (active_task st) = t" and "t \<noteq> []"
  shows "log_file (adapt_interval ts b st) =
           log_file st @
           (if b \<and> task_streak st t + 1 < STREAK_FOR_STEPUP then []
            else [(ts, if b then ''interval_adapt_up'' else ''interval_adapt_down'', t,
                   if session_running st then int_trunc (session_elapsed st) else 0,
                   ''interval_min='' @ str_int (task_interval (adapt_interval ts b st) t))])
       \<and> (task_interval (adapt_interval ts b st) t \<noteq> task_interval st t
            \<longrightarrow> log_file (adapt_interval ts b st) \<noteq> log_file st)"
proof -
  note p = adapt_interval_profile(1) [OF assms, of ts b]
  have l: "log_file (adapt_interval ts b st) =
           log_file st @
           (if b \<and> task_streak st t + 1 < STREAK_FOR_STEPUP then []
            else [(ts, if b then ''interval_adapt_up'' else ''interval_adapt_down'', t,
                   if session_running st then int_trunc (session_elapsed st) else 0,
                   ''interval_min='' @ str_int (task_interval (adapt_interval ts b st) t))])"
    unfolding p by (rule adapt_interval_log [OF assms])
  have "b \<and> task_streak st t + 1 < STREAK_FOR_STEPUP
        \<Longrightarrow> task_interval (adapt_interval ts b st) t = task_interval st t"
    unfolding p by (simp add: next_interval_def)
  then have "task_interval (adapt_interval ts b st) t \<noteq> task_interval st t
        \<longrightarrow> log_file (adapt_interval ts b st) \<noteq> log_file st"
    unfolding l by auto
  with l show ?thesis by blast
qed

theorem adapt_interval_logging_witness:
  "strip (active_task at_upper_bound) = ''Write''
   \<and> ''Write'' \<noteq> []
   \<and> task_interval at_upper_bound ''Write'' = 30
   \<and> task_interval (adapt_interval ''2024-01-01 10:10:00'' False at_upper_bound) ''Write'' = 27
   \<and> log_file at_upper_bound = []
   \<and> log_file (adapt_interval ''2024-01-01 10:10:00'' False at_upper_bound)
       = [(''2024-01-01 10:10:00'', ''interval_adapt_down'', ''Write'', 0, ''interval_min=27'')]"
proof -
  have a: "strip (active_task at_upper_bound) = ''Write''"
    by (simp add: at_upper_bound_def strip_Write)
  have b: "''Write'' \<noteq> []" by simp
  have u: "task_interval at_upper_bound ''Write'' = 30" "task_streak at_upper_bound ''Write'' = 1"
    "log_file at_upper_bound = []" "\<not> session_running at_upper_bound"
    by (simp_all add: task_interval_def task_streak_def at_upper_bound_def get_interval_def
        get_streak_def session_running_def)
  have n: "next_interval False 30 1 = 27"
    by (simp add: next_interval_def clamp_def STEP_DOWN_def MIN_INTERVAL_def MAX_INTERVAL_def)
  have i: "task_interval (adapt_interval ''2024-01-01 10:10:00'' False at_upper_bound) ''Write'' = 27"
    using adapt_interval_profile(1) [OF a b, of "''2024-01-01 10:10:00''" False]
    by (simp add: u n)
  have s27: "str_int 27 = ''27''" by code_simp
  from adapt_interval_logging [OF a b, of "''2024-01-01 10:10:00''" False]
  show ?thesis using a b u i s27 by simp
qed

text \<open>
  The claim as stated fails at both bounds: the second "yes" in a row at interval 30 and
  an off-task step at interval 3 each append an event although the interval is the same
  before and after.
\<close>

theorem adapt_interval_logs_without_change:
  "log_file at_upper_bound = []
   \<and> log_file (adapt_interval ''2024-01-01 10:20:00'' True at_upper_bound)
       = [(''2024-01-01 10:20:00'', ''interval_adapt_up'', ''Write'', 0, ''interval_min=30'')]
   \<and> task_interval at_upper_bound ''Write'' = 30
   \<and> task_interval (adapt_interval ''2024-01-01 10:20:00'' True at_upper_bound) ''Write'' = 30
   \<and> log_file at_lower_bound = []
   \<and> log_file (adapt_interval ''2024-01-01 10:20:00'' False at_lower_bound)
       = [(''2024-01-01 10:20:00'', ''interval_adapt_down'', ''Write'', 0, ''interval_min=3'')]
   \<and> task_interval at_lower_bound ''Write'' = 3
   \<and> task_interval (adapt_interval ''2024-01-01 10:20:00'' False at_lower_bound) ''Write'' = 3"
proof -
  have s30: "str_int 30 = ''30''" by code_simp
  have s3: "str_int 3 = ''3''" by code_simp
  have au: "strip (active_task at_upper_bound) = ''Write''"
    by (simp add: at_upper_bound_def strip_Write)
  have al: "strip (active_task at_lower_bound) = ''Write''"
    by (simp add: at_lower_bound_def strip_Write)
  have b: "''Write'' \<noteq> []" by simp
  have u: "task_interval at_upper_bound ''Write'' = 30" "task_streak at_upper_bound ''Write'' = 1"
    "log_file at_upper_bound = []" "\<not> session_running at_upper_bound"
    by (simp_all add: task_interval_def task_streak_def at_upper_bound_def get_interval_def
        get_streak_def session_running_def)
  have l: "task_interval at_lower_bound ''Write'' = 3" "task_streak at_lower_bound ''Write'' = 0"
    "log_file at_lower_bound = []" "\<not> session_running at_lower_bound"
    by (simp_all add: task_interval_def task_streak_def at_lower_bound_def get_interval_def
        get_streak_def session_running_def)
  have nu: "next_interval True 30 1 = 30"
    by (simp add: next_interval_def clamp_def STREAK_FOR_STEPUP_def STEP_UP_def
        MIN_INTERVAL_def MAX_INTERVAL_def)
  have nl: "next_interval False 3 0 = 3"
    by (simp add: next_interval_def clamp_def STEP_DOWN_def MIN_INTERVAL_def MAX_INTERVAL_def)
  show ?thesis
    using adapt_interval_log [OF au b, of "''2024-01-01 10:20:00''" True]
      adapt_interval_profile(1) [OF au b, of "''2024-01-01 10:20:00''" True]
      adapt_interval_log [OF al b, of "''2024-01-01 10:20:00''" False]
      adapt_interval_profile(1) [OF al b, of "''2024-01-01 10:20:00''" False]
    by (simp add: u l nu nl s30 s3 STREAK_FOR_STEPUP_def)
qed

section \<open>Properties of \<open>summary_for_day\<close>\<close>

lemma add_interval_note_minutes:
  "add_interval (safe_int_from_note (note_str e) ''interval_min'') x = x + note_minutes e"
  by (simp add: add_interval_def note_minutes_def split: option.splits)

lemma summary_step_on_min:
  "on_min (summary_step e s) =
     on_min s + (if event e = ''checkin_on_task'' then note_minutes e else 0)"
  by (simp add: summary_step_def Let_def add_interval_note_minutes)

lemma summary_step_off_min:
  "off_min (summary_step e s) =
     off_min s
     + (if event e = ''checkin_off_task'' \<or> event e = ''procrastination'' then note_minutes e
        else 0)"
  by (simp add: summary_step_def Let_def add_interval_note_minutes)

lemma fold_summary_step_on_min:
  "on_min (fold summary_step es s) =
     on_min s + sum_list (map note_minutes (filter (\<lambda>e. event e = ''checkin_on_task'') es))"
  by (induction es arbitrary: s) (simp_all add: summary_step_on_min)

lemma fold_summary_step_off_min:
  "off_min (fold summary_step es s) =
     off_min s
     + sum_list (map note_minutes
         (filter (\<lambda>e. event e = ''checkin_off_task'' \<or> event e = ''procrastination'') es))"
  by (induction es arbitrary: s) (simp_all add: summary_step_off_min)

text \<open>
  Claim C7. For every day, \<open>on_min\<close> and \<open>off_min\<close> of the summary are the minutes of
  that day's on-task check-ins and of its off-task check-ins and procrastinations, and
  \<open>ratio_on\<close> is \<open>on_min / (on_min + off_min)\<close> when that sum is positive and \<open>None\<close>
  otherwise, so \<open>None\<close> when the sum is 0.
\<close>

theorem summary_for_day_ratio_on:
  "on_min (summary_for_day events d)
     = sum_list (map note_minutes
         (filter (\<lambda>e. event e = ''checkin_on_task'') (events_for_day events d)))
   \<and> off_min (summary_for_day events d)
     = sum_list (map note_minutes
         (filter (\<lambda>e. event e = ''checkin_off_task'' \<or> event e = ''procrastination'')
            (events_for_day events d)))
   \<and> ratio_on (summary_for_day events d)
     = (if on_min (summary_for_day events d) + off_min (summary_for_day events d) > 0
        then Some (of_int (on_min (summary_for_day events d))
                   / of_int (on_min (summary_for_day events d) + off_min (summary_for_day events d)))
        else None)
   \<and> (ratio_on (summary_for_day events d) = None)
     = (on_min (summary_for_day events d) + off_min (summary_for_day events d) \<le> 0)"
  by (simp add: summary_for_day_def Let_def fold_summary_step_on_min fold_summary_step_off_min
      summary_init_def)

lemma summary_for_day_example:
  "ratio_on (summary_for_day
     [\<lparr>dt = 1::nat, day = ''2024-01-01'', event = ''checkin_on_task'', task = ''Write'',
       secs = 600, note_str = ''target_min=30 interval_min=10'',
       timestamp = ''2024-01-01 10:10:00''\<rparr>,
      \<lparr>dt = 2, day = ''2024-01-01'', event = ''procrastination'', task = ''Write'',
       secs = 900, note_str = ''mail | target_min=30 interval_min=10'',
       timestamp = ''2024-01-01 10:15:00''\<rparr>,
      \<lparr>dt = 3, day = ''2024-01-02'', event = ''start'', task = ''Write'',
       secs = 0, note_str = ''target_min=30 interval_min=7'',
       timestamp = ''2024-01-02 09:00:00''\<rparr>] ''2024-01-01'') = Some (1 / 2)"
  by code_simp

lemma summary_for_day_example_empty:
  "ratio_on (summary_for_day
     [\<lparr>dt = 3::nat, day = ''2024-01-02'', event = ''start'', task = ''Write'',
       secs = 0, note_str = ''target_min=30 interval_min=7'',
       timestamp = ''2024-01-02 09:00:00''\<rparr>] ''2024-01-02'') = None"
  by code_simp

section \<open>Properties of \<open>sessions_by_task_in_range\<close>\<close>

lemma map_of_update_rec:
  "map_of (update_rec t f tbl) =
     (map_of tbl)(t \<mapsto> f (case map_of tbl t of None \<Rightarrow> zero_rec | Some r \<Rightarrow> r))"
  by (induction t f tbl rule: update_rec.induct) (auto simp: zero_rec_def fun_eq_iff)

lemma keys_update_rec:
  "fst ` set (update_rec t f tbl) = insert t (fst ` set tbl)"
  by (induction t f tbl rule: update_rec.induct) auto

lemma distinct_update_rec:
  "distinct (map fst tbl) \<Longrightarrow> distinct (map fst (update_rec t f tbl))"
proof (induction t f tbl rule: update_rec.induct)
  case (1 t f)
  then show ?case by simp
next
  case (2 t f k r tbl)
  then show ?case
    using keys_update_rec [of t f tbl] by (auto simp: image_iff) 
qed

lemma distinct_by_task_step:
  "distinct (map fst tbl) \<Longrightarrow> distinct (map fst (by_task_step e tbl))"
  by (simp add: by_task_step_def Let_def distinct_update_rec)

lemma distinct_fold_by_task_step:
  "distinct (map fst tbl) \<Longrightarrow> distinct (map fst (fold by_task_step evs tbl))"
  by (induction evs arbitrary: tbl) (simp_all add: distinct_by_task_step)

lemma add_counts_Nil [simp]: "add_counts r [] t = r"
  by (simp add: add_counts_def stops_of_def cancels_of_def)

lemma add_counts_Cons:
  "add_counts r (e # es) t =
     add_counts
       (if task_label e = t \<and> event e = ''stop''
          then r\<lparr>rec_sessions := rec_sessions r + 1, rec_total_secs := rec_total_secs r + secs e\<rparr>
        else if task_label e = t \<and> event e = ''cancel''
          then r\<lparr>rec_cancels := rec_cancels r + 1\<rparr>
        else r) es t"
  by (simp add: add_counts_def stops_of_def cancels_of_def)

text \<open>The events that end a session, for a task label.\<close>

lemma map_of_by_task_step:
  "map_of (by_task_step e tbl) t =
     (if task_label e = t \<and> (event e = ''stop'' \<or> event e = ''cancel'')
      then Some (add_counts (case map_of tbl t of None \<Rightarrow> zero_rec | Some r \<Rightarrow> r) [e] t)
      else map_of tbl t)"
  by (auto simp: by_task_step_def Let_def map_of_update_rec add_counts_def stops_of_def
      cancels_of_def)

lemma map_of_fold_by_task_step:
  "map_of (fold by_task_step evs tbl) t =
     (case map_of tbl t of
        Some r \<Rightarrow> Some (add_counts r evs t)
      | None \<Rightarrow>
          if stops_of evs t = [] \<and> cancels_of evs t = [] then None
          else Some (add_counts zero_rec evs t))"
proof (induction evs arbitrary: tbl)
  case Nil
  then show ?case
    by (simp add: stops_of_def cancels_of_def split: option.splits)
next
  case (Cons e es)
  show ?case
    unfolding fold_simps Cons.IH map_of_by_task_step
    by (auto simp: add_counts_Cons add_counts_def stops_of_def cancels_of_def zero_rec_def
        split: option.splits)
qed

lemma set_fold_by_task_step:
  "set (fold by_task_step evs []) =
     (\<lambda>t. (t, add_counts zero_rec evs t)) ` {t. \<not> (stops_of evs t = [] \<and> cancels_of evs t = [])}"
proof -
  have d: "distinct (map fst (fold by_task_step evs []))"
    by (rule distinct_fold_by_task_step) simp
  have "(t, r) \<in> set (fold by_task_step evs []) \<longleftrightarrow>
          \<not> (stops_of evs t = [] \<and> cancels_of evs t = []) \<and> r = add_counts zero_rec evs t" for t r
    using map_of_eq_Some_iff [OF d, of t r] map_of_fold_by_task_step [of evs "[]" t]
    by (auto split: if_splits)
  then show ?thesis by (auto simp: image_iff)
qed

lemma row_of_add_counts: "row_of (t, add_counts zero_rec evs t) = task_row_of evs t"
  by (simp add: row_of_def add_counts_def zero_rec_def task_row_of_def)

lemma set_sort_desc [simp]: "set (sort_desc k xs) = set xs"
  by (simp add: sort_desc_def)

lemma distinct_map_sort_desc:
  "distinct (map f (sort_desc k xs)) = distinct (map f xs)"
  by (simp add: sort_desc_def distinct_map)

lemma fst_row_of: "fst (row_of tr) = fst tr"
  by (cases tr) (simp add: row_of_def)

lemma sessions_by_task_rows:
  "set (sessions_by_task_in_range events a b) =
     task_row_of (events_in_range events a b)
       ` {t. \<not> (stops_of (events_in_range events a b) t = []
               \<and> cancels_of (events_in_range events a b) t = [])}"
  by (simp add: sessions_by_task_in_range_def set_fold_by_task_step image_image
      row_of_add_counts)

lemma sessions_by_task_distinct:
  "distinct (map fst (sessions_by_task_in_range events a b))"
proof -
  have "distinct (map fst (fold by_task_step (events_in_range events a b) []))"
    by (rule distinct_fold_by_task_step) simp
  then show ?thesis
    by (simp add: sessions_by_task_in_range_def distinct_map_sort_desc comp_def fst_row_of)
qed

lemma fold_by_task_step_ends:
  "fold by_task_step (filter (\<lambda>e. event e = ''stop'' \<or> event e = ''cancel'') evs) tbl =
   fold by_task_step evs tbl"
proof (induction evs arbitrary: tbl)
  case Nil
  then show ?case by simp
next
  case (Cons e es)
  have "\<not> (event e = ''stop'' \<or> event e = ''cancel'') \<Longrightarrow> by_task_step e tbl = tbl"
    by (simp add: by_task_step_def)
  with Cons show ?case by simp
qed

lemma events_in_range_filter:
  "events_in_range (filter P events) a b = filter P (events_in_range events a b)"
  by (auto simp: events_in_range_def intro: filter_cong)

lemma filter_fst_distinct:
  "distinct (map fst xs) \<Longrightarrow> x \<in> set xs \<Longrightarrow> filter (\<lambda>r. fst r = fst x) xs = [x]"
proof (induction xs)
  case Nil
  then show ?case by simp
next
  case (Cons y ys)
  show ?case
  proof (cases "x = y")
    case True
    have "filter (\<lambda>r. fst r = fst y) ys = []"
      using Cons.prems(1) by (auto simp: filter_empty_conv image_iff)
    with True show ?thesis by simp
  next
    case False
    with Cons.prems have "x \<in> set ys" by simp
    moreover from this Cons.prems(1) have "fst y \<noteq> fst x" by (auto simp: image_iff)
    ultimately show ?thesis using Cons by simp
  qed
qed

text \<open>
  Claim C6. Over the events of the range, the result has exactly one row for every task
  label that carries a \<open>stop\<close> or a \<open>cancel\<close>, and that row is \<open>task_row_of\<close>: the number
  of sessions is the number of the task's \<open>stop\<close> events, the total is the sum of their
  seconds, the average is their quotient and \<open>None\<close> without a \<open>stop\<close>, and the cancel
  count is the number of its \<open>cancel\<close> events. Events of any other kind, the legacy
  \<open>session_complete\<close> among them, do not change the result.
\<close>

theorem sessions_by_task_counts:
  "set (sessions_by_task_in_range events a b) =
     task_row_of (events_in_range events a b)
       ` {t. \<not> (stops_of (events_in_range events a b) t = []
               \<and> cancels_of (events_in_range events a b) t = [])}
   \<and> distinct (map fst (sessions_by_task_in_range events a b))
   \<and> sessions_by_task_in_range (filter (\<lambda>e. event e = ''stop'' \<or> event e = ''cancel'') events) a b
       = sessions_by_task_in_range events a b"
proof -
  have "sessions_by_task_in_range (filter (\<lambda>e. event e = ''stop'' \<or> event e = ''cancel'') events) a b
       = sessions_by_task_in_range events a b"
    by (simp add: sessions_by_task_in_range_def events_in_range_filter fold_by_task_step_ends)
  with sessions_by_task_rows [of events a b] sessions_by_task_distinct [of events a b]
  show ?thesis by blast
qed

text \<open>
  Claim C10. A task label with at least one \<open>cancel\<close> and no \<open>stop\<close> in the range has
  exactly one row in the result: no sessions, total 0, average \<open>None\<close>, and the number
  of its cancels.
\<close>

theorem sessions_by_task_cancel_only:
  assumes "cancels_of (events_in_range events a b) t \<noteq> []"
    and "stops_of (events_in_range events a b) t = []"
  shows "filter (\<lambda>row. fst row = t) (sessions_by_task_in_range events a b)
           = [(t, 0, 0, None, int (length (cancels_of (events_in_range events a b) t)))]
         \<and> 0 < length (cancels_of (events_in_range events a b) t)"
proof -
  let ?evs = "events_in_range events a b"
  let ?row = "(t, 0::int, 0::int, None :: rat option, int (length (cancels_of ?evs t)))"
  have r: "task_row_of ?evs t = ?row"
    using assms(2) by (simp add: task_row_of_def)
  have "task_row_of ?evs t \<in> set (sessions_by_task_in_range events a b)"
    unfolding sessions_by_task_rows using assms(1) by blast
  then have "?row \<in> set (sessions_by_task_in_range events a b)"
    by (simp only: r)
  from filter_fst_distinct [OF sessions_by_task_distinct this] assms(1)
  show ?thesis by simp
qed

theorem sessions_by_task_cancel_only_witness:
  "cancels_of (events_in_range cancel_only_log ''2024-01-01'' ''2024-01-02'') ''Write'' \<noteq> []
   \<and> stops_of (events_in_range cancel_only_log ''2024-01-01'' ''2024-01-02'') ''Write'' = []
   \<and> filter (\<lambda>row. fst row = ''Write'')
        (sessions_by_task_in_range cancel_only_log ''2024-01-01'' ''2024-01-02'')
       = [(''Write'', 0, 0, None, 1)]"
proof -
  have a: "cancels_of (events_in_range cancel_only_log ''2024-01-01'' ''2024-01-02'') ''Write'' \<noteq> []"
    by code_simp
  have b: "stops_of (events_in_range cancel_only_log ''2024-01-01'' ''2024-01-02'') ''Write'' = []"
    by code_simp
  have n: "length (cancels_of (events_in_range cancel_only_log ''2024-01-01'' ''2024-01-02'') ''Write'')
             = 1"
    by code_simp
  from sessions_by_task_cancel_only [OF a b] a b show ?thesis
    by (simp add: n)
qed

lemma sessions_by_task_example:
  "sessions_by_task_in_range cancel_only_log ''2024-01-01'' ''2024-01-02''
     = [(''Read'', 1, 1800, Some 1800, 0), (''Write'', 0, 0, None, 1)]"
  by code_simp

lemma sessions_by_task_example_all:
  "sessions_by_task_in_range cancel_only_log ''2024-01-01'' ''2024-01-31''
     = [(''Read'', 1, 1800, Some 1800, 0), (''Write'', 1, 1200, Some 1200, 1)]"
  by code_simp

section \<open>Properties of \<open>load\<close>\<close>

lemma load_rows_raises:
  assumes "row \<in> set rows" and "row_get row ''timestamp'' [] = Some ts"
    and "parse_ts ts = Some d" and "row_secs row = None"
  shows "load_rows parse_ts day_key rows events = Inl ValueError"
  using assms(1)
proof (induction rows arbitrary: events)
  case Nil
  then show ?case by simp
next
  case (Cons r rs)
  show ?case
  proof (cases "r = row")
    case True
    then show ?thesis using assms(2,3,4) by simp
  next
    case False
    with Cons.prems have "row \<in> set rs" by simp
    then have "load_rows parse_ts day_key rs ev = Inl ValueError" for ev
      by (rule Cons.IH)
    then show ?thesis
      by (simp split: option.splits)
  qed
qed

lemma py_int_decimal_point: "py_int ''12.5'' = None"
  by code_simp

lemma row_secs_bad_secs_row: "row_secs bad_secs_row = None"
  by (simp add: row_secs_def row_get_def bad_secs_row_def py_int_decimal_point)

text \<open>
  A line whose timestamp does not parse is skipped, and the lines around it are
  returned.
\<close>

lemma load_skips_malformed_timestamp:
  "load sample_parse_ts sample_day_key (Some [bad_ts_row, good_row]) =
     Inr [\<lparr>dt = 36000, day = ''2024-01-01'', event = ''start'', task = ''Write'', secs = 0,
           note_str = ''target_min=30 interval_min=10'', timestamp = ''2024-01-01 10:00:00''\<rparr>]"
proof -
  have "strip ''start'' = ''start''" "strip ''Write'' = ''Write''" "py_int ''0'' = Some 0"
    by code_simp+
  then show ?thesis
    by (simp add: load_def row_get_def row_secs_def bad_ts_row_def good_row_def
        sample_parse_ts_def sample_day_key_def or_empty_def)
qed

lemma load_rows_step:
  "\<not> bad_seconds parse_ts r \<Longrightarrow>
   load_rows parse_ts day_key (r # rs) events =
     load_rows parse_ts day_key rs
       (events @ (case record_of parse_ts day_key r of None \<Rightarrow> [] | Some e \<Rightarrow> [e]))"
  by (auto simp: record_of_def bad_seconds_def split: option.splits)

lemma load_rows_without_bad_seconds:
  "list_all (\<lambda>row. \<not> bad_seconds parse_ts row) rows \<Longrightarrow>
   load_rows parse_ts day_key rows events =
     Inr (events @ List.map_filter (record_of parse_ts day_key) rows)"
proof (induction rows arbitrary: events)
  case Nil
  then show ?case by (simp add: List.map_filter_simps)
next
  case (Cons r rs)
  then have rs: "load_rows parse_ts day_key rs ev
      = Inr (ev @ List.map_filter (record_of parse_ts day_key) rs)" for ev
    by simp
  from Cons.prems have r: "\<not> bad_seconds parse_ts r" by simp
  show ?case
    unfolding load_rows_step [OF r] rs
    by (simp add: List.map_filter_simps split: option.splits)
qed

text \<open>
  When no row has a timestamp that parses together with seconds that are not an integer,
  \<open>load\<close> returns the records of the rows it can build one from, sorted by time: the
  rows whose timestamp does not parse are skipped.
\<close>

lemma load_without_bad_seconds:
  "list_all (\<lambda>row. \<not> bad_seconds parse_ts row) rows \<Longrightarrow>
   load parse_ts day_key (Some rows) =
     Inr (sort_key dt (List.map_filter (record_of parse_ts day_key) rows))"
  by (simp add: load_def load_rows_without_bad_seconds)

text \<open>
  Claim C1, on the code. The \<open>int\<close> of the seconds is outside the \<open>try\<close>: a file that
  holds a line with a timestamp that parses and seconds that are not an integer makes
  \<open>load\<close> raise \<open>ValueError\<close>, and no record is returned, whatever the other lines
  are.
\<close>

theorem load_raises_on_non_integer_seconds:
  assumes "row \<in> set rows" and "row_get row ''timestamp'' [] = Some ts"
    and "parse_ts ts = Some d" and "row_secs row = None"
  shows "load parse_ts day_key (Some rows) = Inl ValueError"
proof -
  have "load_rows parse_ts day_key rows [] = Inl ValueError"
    by (rule load_rows_raises [where row = row and ts = ts and d = d]) fact+
  then show ?thesis by (simp add: load_def)
qed

theorem load_raises_on_non_integer_seconds_witness:
  "bad_secs_row \<in> set [good_row, bad_secs_row]
   \<and> row_get bad_secs_row ''timestamp'' [] = Some ''2024-01-01 10:30:00''
   \<and> sample_parse_ts ''2024-01-01 10:30:00'' = Some 37800
   \<and> row_secs bad_secs_row = None
   \<and> load sample_parse_ts sample_day_key (Some [good_row, bad_secs_row]) = Inl ValueError"
proof -
  have a: "bad_secs_row \<in> set [good_row, bad_secs_row]" by simp
  have b: "row_get bad_secs_row ''timestamp'' [] = Some ''2024-01-01 10:30:00''"
    by (simp add: row_get_def bad_secs_row_def)
  have c: "sample_parse_ts ''2024-01-01 10:30:00'' = Some 37800"
    by (simp add: sample_parse_ts_def)
  note d = row_secs_bad_secs_row
  have "load sample_parse_ts sample_day_key (Some [good_row, bad_secs_row]) = Inl ValueError"
    by (rule load_raises_on_non_integer_seconds
        [where row = bad_secs_row and ts = "''2024-01-01 10:30:00''" and d = 37800])
      (fact a b c d)+
  with a b c d show ?thesis by simp
qed

section \<open>Properties of \<open>session_stats_in_range\<close>\<close>

text \<open>
  Claim C3, on the code. The outer loop resumes after the boundary that closes a window,
  so a \<open>start\<close> that closes the window of the \<open>start\<close> before it opens no window of its
  own: on the log with two \<open>start\<close> events in a row the list of times is empty and
  the average is \<open>None\<close>, where the window of the second \<open>start\<close> holds a
  procrastination at 300 seconds.
\<close>

theorem tt_first_skips_restart:
  "tt_loop (events_in_range restart_log ''2024-01-01'' ''2024-01-01'') 0 [] = []
   \<and> session_stats_in_range restart_log ''2024-01-01'' ''2024-01-01'' = (None, None, None)
   \<and> spec_tt_first (events_in_range restart_log ''2024-01-01'' ''2024-01-01'') = [300]
   \<and> spec_avg_tt (events_in_range restart_log ''2024-01-01'' ''2024-01-01'') = Some 300"
  by code_simp

lemma session_stats_example:
  "session_stats_in_range cancel_only_log ''2024-01-01'' ''2024-01-02''
     = (Some 1800, Some (1 / 2), Some 300)"
  by code_simp

lemma fst_scan_first:
  "j \<le> length evs \<Longrightarrow> fst (scan_first evs j) = first_in_window (drop j evs)"
proof (induction evs j rule: scan_first.induct)
  case (1 evs j)
  show ?case
  proof (cases "j < length evs")
    case True
    then have d: "drop j evs = evs ! j # drop (j + 1) evs"
      by (simp add: Cons_nth_drop_Suc)
    show ?thesis
      using True 1 by (subst scan_first.simps) (simp add: d)
  next
    case False
    then show ?thesis
      by (subst scan_first.simps) simp
  qed
qed

lemma skip_after_scan_first:
  "skip_to_boundary evs (snd (scan_first evs j)) = skip_to_boundary evs j"
proof (induction evs j rule: scan_first.induct)
  case (1 evs j)
  show ?case
  proof (cases "j < length evs \<and> \<not> is_boundary (evs ! j)")
    case True
    show ?thesis
    proof (cases "event (evs ! j) = ''procrastination''")
      case True
      with \<open>j < length evs \<and> \<not> is_boundary (evs ! j)\<close> show ?thesis
        by (subst scan_first.simps) simp
    next
      case False
      with True 1 have "skip_to_boundary evs (snd (scan_first evs (j + 1))) = skip_to_boundary evs (j + 1)"
        by simp
      moreover have "scan_first evs j = scan_first evs (j + 1)"
        using True False by (subst scan_first.simps) simp
      moreover have "skip_to_boundary evs j = skip_to_boundary evs (j + 1)"
        using True by (subst skip_to_boundary.simps) simp
      ultimately show ?thesis by simp
    qed
  next
    case False
    then have "scan_first evs j = (None, j)"
      by (subst scan_first.simps) auto
    then show ?thesis by simp
  qed
qed

lemma skip_to_boundary_takeWhile:
  "j \<le> length evs \<Longrightarrow>
   skip_to_boundary evs j = j + length (takeWhile (\<lambda>x. \<not> is_boundary x) (drop j evs))"
proof (induction evs j rule: skip_to_boundary.induct)
  case (1 evs j)
  show ?case
  proof (cases "j < length evs")
    case True
    then have d: "drop j evs = evs ! j # drop (j + 1) evs"
      by (simp add: Cons_nth_drop_Suc)
    show ?thesis
      using True 1 by (subst skip_to_boundary.simps) (simp add: d)
  next
    case False
    with 1 show ?thesis
      by (subst skip_to_boundary.simps) simp
  qed
qed

lemma not_boundary_not_start: "\<not> is_boundary e \<Longrightarrow> event e \<noteq> ''start''"
  by (simp add: is_boundary_def)

lemma spec_tt_first_dropWhile:
  "spec_tt_first (dropWhile (\<lambda>x. \<not> is_boundary x) es) = spec_tt_first es"
  by (induction es) (simp_all add: not_boundary_not_start)

lemma no_restart_drop: "no_restart es \<Longrightarrow> no_restart (drop k es)"
proof (induction es arbitrary: k)
  case Nil
  then show ?case by simp
next
  case (Cons e es)
  then show ?case by (cases k) simp_all
qed

lemma drop_past_boundary:
  "drop (Suc (length (takeWhile P es))) es = drop 1 (dropWhile P es)"
  by (induction es) simp_all

lemma tt_loop_no_restart:
  "i \<le> length evs \<Longrightarrow> no_restart (drop i evs) \<Longrightarrow>
   tt_loop evs i acc = acc @ spec_tt_first (drop i evs)"
proof (induction evs i acc rule: tt_loop.induct)
  case (1 evs i acc)
  show ?case
  proof (cases "i < length evs")
    case False
    then show ?thesis
      by (subst tt_loop.simps) simp
  next
    case True
    then have d: "drop i evs = evs ! i # drop (i + 1) evs"
      by (simp add: Cons_nth_drop_Suc)
    show ?thesis
    proof (cases "event (evs ! i) = ''start''")
      case False
      have "no_restart (drop (i + 1) evs)"
        using "1.prems"(2) d by simp
      with True False "1.IH"(1) have "tt_loop evs (i + 1) acc = acc @ spec_tt_first (drop (i + 1) evs)"
        by simp
      then show ?thesis
        using True False by (subst tt_loop.simps) (simp add: d)
    next
      case start: True
      let ?es = "drop (i + 1) evs"
      obtain first j1 where sf: "scan_first evs (i + 1) = (first, j1)"
        by (cases "scan_first evs (i + 1)")
      have first: "first = first_in_window ?es"
        using fst_scan_first [of "i + 1" evs] True sf by simp
      let ?j = "skip_to_boundary evs j1"
      have j: "?j = i + 1 + length (takeWhile (\<lambda>x. \<not> is_boundary x) ?es)"
        using skip_after_scan_first [of evs "i + 1"] sf skip_to_boundary_takeWhile [of "i + 1" evs] True
        by simp
      then have gt: "?j > i" by simp
      let ?acc' = "case first of None \<Rightarrow> acc | Some f \<Rightarrow> acc @ [f]"
      have step: "tt_loop evs i acc = tt_loop evs (?j + 1) ?acc'"
        using True start sf gt by (subst tt_loop.simps) (simp add: Let_def)
      have dj: "drop (?j + 1) evs = drop 1 (dropWhile (\<lambda>x. \<not> is_boundary x) ?es)"
      proof -
        have "drop (?j + 1) evs = drop (Suc (length (takeWhile (\<lambda>x. \<not> is_boundary x) ?es))) ?es"
          unfolding j by (simp add: add.commute add.left_commute)
        then show ?thesis by (simp only: drop_past_boundary)
      qed
      have "drop (?j + 1 - i) (drop i evs) = drop (?j + 1) evs"
        using gt by simp
      then have nr: "no_restart (drop (?j + 1) evs)"
        using no_restart_drop [OF "1.prems"(2), of "?j + 1 - i"] by simp
      have closed: "spec_tt_first (drop 1 (dropWhile (\<lambda>x. \<not> is_boundary x) ?es)) = spec_tt_first ?es"
      proof (cases "dropWhile (\<lambda>x. \<not> is_boundary x) ?es")
        case Nil
        from spec_tt_first_dropWhile [of ?es] have "spec_tt_first ?es = []"
          unfolding Nil by simp
        then show ?thesis
          unfolding Nil by simp
      next
        case (Cons b rest)
        then have "event b = ''stop'' \<or> event b = ''cancel''"
          using "1.prems"(2) d start by simp
        then have "spec_tt_first (b # rest) = spec_tt_first rest" by auto
        then show ?thesis
          using spec_tt_first_dropWhile [of ?es] Cons by simp
      qed
      show ?thesis
      proof (cases "?j + 1 \<le> length evs")
        case le: True
        have "tt_loop evs (?j + 1) ?acc' = ?acc' @ spec_tt_first (drop (?j + 1) evs)"
          using "1.IH"(2) [OF True _ sf [symmetric] refl refl refl] start gt le nr
          by simp
        then show ?thesis
          unfolding step using first closed dj d start
          by (simp split: option.splits)
      next
        case gtlen: False
        then have "tt_loop evs (?j + 1) ?acc' = ?acc'"
          by (subst tt_loop.simps) simp
        moreover have "spec_tt_first (drop (?j + 1) evs) = []"
          using gtlen by simp
        ultimately show ?thesis
          unfolding step using first closed dj d start
          by (simp split: option.splits)
      qed
    qed
  qed
qed

text \<open>
  On a list without a restart the loop computes the times the specification describes:
  the code and the claim C3 differ only where a \<open>start\<close> closes a window.
\<close>

lemma tt_loop_agrees_without_restart:
  "no_restart evs \<Longrightarrow> tt_loop evs 0 [] = spec_tt_first evs"
  using tt_loop_no_restart [of 0 evs "[]"] by simp

end
